theory Spec2Isabelle
  imports Complex_Main
begin

section \<open>The binomial lattice option pricer\<close>

text \<open>
  This theory embeds \<^verbatim>\<open>binomial_option_pricer\<close> of
  \<^verbatim>\<open>Binomial Lattice Options Pricer.py\<close> and settles the properties stated about it.

  Numbers. The arguments \<open>S\<close>, \<open>K\<close>, \<open>T\<close>, \<open>r\<close>, \<open>sigma\<close> are Python numbers and
  \<open>N\<close> is a Python \<open>int\<close>, as in the script's example call. Floating-point values are
  idealised as real numbers: rounding and overflow are not modelled. What is modelled of
  IEEE arithmetic is the loss of finiteness: a NumPy operation that yields \<open>nan\<close> or an
  infinity (the square root of a negative number, a division by zero) yields \<open>None\<close>, and
  every operation with a \<open>None\<close> operand yields \<open>None\<close>. In this function an infinity can
  only arise as the probability \<open>q\<close>, whose two uses \<open>q * V\<close> and \<open>(1 - q) * V'\<close> are
  added, so that the sum is \<open>nan\<close>; merging \<open>nan\<close> and the infinities therefore does not
  change which grid entries are finite.

  What the idealisation leaves out. \<^verbatim>\<open>np.exp\<close> is the real exponential here. In float64
  it rounds: for \<open>sigma * sqrt (T / N)\<close> below about \<open>1e-16\<close> it returns exactly \<open>1.0\<close> for
  both \<open>u\<close> and \<open>d\<close>, and it overflows and underflows. The recursion of line 48 is exact
  here; in float64 it amplifies rounding errors when \<open>q\<close> is outside \<open>[0, 1]\<close>. A
  statement below that is to hold of the float64 program for such inputs is therefore
  made about the values computed for \<open>u\<close>, \<open>d\<close> and \<open>R\<close>, whatever they are
  (\<open>pricer_from_factors\<close>), and not about \<open>sigma\<close>.
\<close>

subsection \<open>Python errors and NumPy floats\<close>

datatype py_error =
    ZeroDivisionError                \<comment> \<open>\<^verbatim>\<open>T / N\<close> with \<open>N = 0\<close>\<close>
  | IndexError                       \<comment> \<open>\<^verbatim>\<open>stock_prices[0, 0] = S\<close> on an array of shape \<open>(0, 0)\<close>\<close>
  | ValueError_negative_dimensions   \<comment> \<open>\<^verbatim>\<open>np.zeros\<close> with a negative dimension\<close>
  | ValueError_option_type           \<comment> \<open>\<^verbatim>\<open>raise ValueError("Option type must be 'call' or 'put'")\<close>\<close>

type_synonym npfloat = "real option"

definition lift2 :: "(real \<Rightarrow> real \<Rightarrow> real) \<Rightarrow> npfloat \<Rightarrow> npfloat \<Rightarrow> npfloat" where
  "lift2 f a b = (case a of None \<Rightarrow> None | Some x \<Rightarrow> (case b of None \<Rightarrow> None | Some y \<Rightarrow> Some (f x y)))"

definition fadd :: "npfloat \<Rightarrow> npfloat \<Rightarrow> npfloat" where
  "fadd = lift2 (+)"

definition fsub :: "npfloat \<Rightarrow> npfloat \<Rightarrow> npfloat" where
  "fsub = lift2 (-)"

definition fmul :: "npfloat \<Rightarrow> npfloat \<Rightarrow> npfloat" where
  "fmul = lift2 (*)"

definition fdiv :: "npfloat \<Rightarrow> npfloat \<Rightarrow> npfloat" where
  \<comment> \<open>NumPy float division: a zero divisor gives \<open>inf\<close> or \<open>nan\<close> with a warning, no exception\<close>
  "fdiv a b = (case b of None \<Rightarrow> None
               | Some y \<Rightarrow> if y = 0 then None else lift2 (/) a (Some y))"

definition np_sqrt :: "real \<Rightarrow> npfloat" where
  "np_sqrt x = (if x < 0 then None else Some (sqrt x))"

definition np_exp :: "npfloat \<Rightarrow> npfloat" where
  \<comment> \<open>the exact exponential: no rounding to \<open>1.0\<close>, no overflow, no underflow\<close>
  "np_exp a = map_option exp a"

definition np_maximum :: "real \<Rightarrow> npfloat \<Rightarrow> npfloat" where
  \<comment> \<open>\<^verbatim>\<open>np.maximum(c, x)\<close> propagates \<open>nan\<close>\<close>
  "np_maximum c a = map_option (max c) a"

subsection \<open>Two-dimensional arrays\<close>

type_synonym grid = "npfloat list list"

definition np_zeros :: "nat \<Rightarrow> nat \<Rightarrow> grid" where
  "np_zeros rows cols = replicate rows (replicate cols (Some 0))"

definition set2 :: "grid \<Rightarrow> nat \<Rightarrow> nat \<Rightarrow> npfloat \<Rightarrow> grid" where
  \<comment> \<open>\<^verbatim>\<open>g[i, j] = v\<close>, for indices within the shape\<close>
  "set2 g i j v = g[i := (g ! i)[j := v]]"

definition shaped :: "nat \<Rightarrow> grid \<Rightarrow> bool" where
  "shaped m g = (length g = m \<and> list_all (\<lambda>row. length row = m) g)"

subsection \<open>The pricer\<close>

text \<open>Lines 25 to 31: the stock price lattice. Row \<open>i\<close> is written from row \<open>i - 1\<close>.\<close>

definition stock_down_moves :: "npfloat \<Rightarrow> nat \<Rightarrow> grid \<Rightarrow> grid" where
  "stock_down_moves d i g =
     fold (\<lambda>j g. set2 g i j (fmul (g ! (i - 1) ! (j - 1)) d)) [1..<i + 1] g"

definition stock_layer :: "npfloat \<Rightarrow> npfloat \<Rightarrow> nat \<Rightarrow> grid \<Rightarrow> grid" where
  "stock_layer u d i g = stock_down_moves d i (set2 g i 0 (fmul (g ! (i - 1) ! 0) u))"

definition build_stock_prices :: "real \<Rightarrow> npfloat \<Rightarrow> npfloat \<Rightarrow> nat \<Rightarrow> grid" where
  "build_stock_prices S u d n =
     fold (stock_layer u d) [1..<n + 1] (set2 (np_zeros (n + 1) (n + 1)) 0 0 (Some S))"

text \<open>Lines 34 to 43: the option values at maturity, or the error for an unknown option type.\<close>

definition terminal_payoff :: "grid \<Rightarrow> real \<Rightarrow> nat \<Rightarrow> string \<Rightarrow> py_error + grid" where
  "terminal_payoff stock_prices K n option_type =
     (let option_values = np_zeros (n + 1) (n + 1) in
      if option_type = ''call'' then
        Inr (option_values[n := map (\<lambda>s. np_maximum 0 (fsub s (Some K))) (stock_prices ! n)])
      else if option_type = ''put'' then
        Inr (option_values[n := map (\<lambda>s. np_maximum 0 (fsub (Some K) s)) (stock_prices ! n)])
      else Inl ValueError_option_type)"

text \<open>Lines 46 to 48: the backward pass, layer \<open>N - 1\<close> down to layer \<open>0\<close>.\<close>

definition continuation :: "npfloat \<Rightarrow> npfloat \<Rightarrow> grid \<Rightarrow> nat \<Rightarrow> nat \<Rightarrow> npfloat" where
  \<comment> \<open>the right-hand side of line 48\<close>
  "continuation q R g i j =
     fdiv (fadd (fmul q (g ! (i + 1) ! j)) (fmul (fsub (Some 1) q) (g ! (i + 1) ! (j + 1)))) R"

definition backward_node :: "npfloat \<Rightarrow> npfloat \<Rightarrow> nat \<Rightarrow> nat \<Rightarrow> grid \<Rightarrow> grid" where
  "backward_node q R i j g = set2 g i j (continuation q R g i j)"

definition backward_layer :: "npfloat \<Rightarrow> npfloat \<Rightarrow> nat \<Rightarrow> grid \<Rightarrow> grid" where
  "backward_layer q R i g = fold (backward_node q R i) [0..<i + 1] g"

definition backward_pass :: "npfloat \<Rightarrow> npfloat \<Rightarrow> nat \<Rightarrow> grid \<Rightarrow> grid" where
  "backward_pass q R n g = fold (backward_layer q R) (rev [0..<n]) g"

text \<open>
  Lines 14 to 23: the time step and the per-step factors \<open>u\<close>, \<open>d\<close>, \<open>R\<close> and \<open>q\<close>,
  for \<open>N \<noteq> 0\<close>. \<open>T / N\<close> and \<open>r * delta_t\<close> are operations of Python numbers, the others
  of NumPy floats.
\<close>

definition delta_t :: "real \<Rightarrow> int \<Rightarrow> real" where
  "delta_t T N = T / real_of_int N"

definition factor_u :: "real \<Rightarrow> real \<Rightarrow> int \<Rightarrow> npfloat" where
  "factor_u T sigma N = np_exp (fmul (Some sigma) (np_sqrt (delta_t T N)))"

definition factor_d :: "real \<Rightarrow> real \<Rightarrow> int \<Rightarrow> npfloat" where
  "factor_d T sigma N = np_exp (fmul (Some (- sigma)) (np_sqrt (delta_t T N)))"

definition factor_R :: "real \<Rightarrow> real \<Rightarrow> int \<Rightarrow> npfloat" where
  "factor_R T r N = np_exp (Some (r * delta_t T N))"

definition prob_q :: "real \<Rightarrow> real \<Rightarrow> real \<Rightarrow> int \<Rightarrow> npfloat" where
  "prob_q T r sigma N =
     fdiv (fsub (factor_R T r N) (factor_d T sigma N))
          (fsub (factor_u T sigma N) (factor_d T sigma N))"

text \<open>
  Lines 12 to 48: the two lattices as they are handed to \<^verbatim>\<open>visualize_binomial_tree\<close>
  in line 51. The plot reads the lattices and changes neither; it is not modelled.
  The errors are those Python raises on the way: the division \<open>T / N\<close> in line 15,
  \<^verbatim>\<open>np.zeros((N+1, N+1))\<close> in line 25, the store into an empty array in line 26, and
  the \<^verbatim>\<open>raise\<close> of line 43.
\<close>

definition lattices ::
  "real \<Rightarrow> real \<Rightarrow> real \<Rightarrow> real \<Rightarrow> real \<Rightarrow> int \<Rightarrow> string \<Rightarrow> py_error + (grid \<times> grid)" where
  "lattices S K T r sigma N option_type =
     (if N = 0 then Inl ZeroDivisionError
      else if N + 1 < 0 then Inl ValueError_negative_dimensions
      else if N + 1 = 0 then Inl IndexError
      else
        let stock_prices =
              build_stock_prices S (factor_u T sigma N) (factor_d T sigma N) (nat N)
        in
          case terminal_payoff stock_prices K (nat N) option_type of
            Inl e \<Rightarrow> Inl e
          | Inr option_values \<Rightarrow>
              Inr (stock_prices,
                   backward_pass (prob_q T r sigma N) (factor_R T r N) (nat N) option_values))"

text \<open>Line 54: the price is the option value at the root.\<close>

definition binomial_option_pricer ::
  "real \<Rightarrow> real \<Rightarrow> real \<Rightarrow> real \<Rightarrow> real \<Rightarrow> int \<Rightarrow> string \<Rightarrow> py_error + npfloat" where
  "binomial_option_pricer S K T r sigma N option_type =
     (case lattices S K T r sigma N option_type of
        Inl e \<Rightarrow> Inl e
      | Inr (stock_prices, option_values) \<Rightarrow> Inr (option_values ! 0 ! 0))"

text \<open>
  Lines 23 to 54 as a function of the values that lines 18 to 22 have computed for
  \<open>u\<close>, \<open>d\<close> and \<open>R\<close>, for \<open>N \<ge> 1\<close>. What holds of it for all \<open>u\<close>, \<open>d\<close> and \<open>R\<close> does
  not depend on how \<^verbatim>\<open>np.exp\<close> rounds.
\<close>

definition risk_neutral_q :: "npfloat \<Rightarrow> npfloat \<Rightarrow> npfloat \<Rightarrow> npfloat" where
  \<comment> \<open>line 23\<close>
  "risk_neutral_q u d R = fdiv (fsub R d) (fsub u d)"

definition pricer_from_factors ::
  "npfloat \<Rightarrow> npfloat \<Rightarrow> npfloat \<Rightarrow> real \<Rightarrow> real \<Rightarrow> nat \<Rightarrow> string \<Rightarrow> py_error + npfloat" where
  "pricer_from_factors u d R S K n option_type =
     (let q = risk_neutral_q u d R;
          stock_prices = build_stock_prices S u d n
      in
        case terminal_payoff stock_prices K n option_type of
          Inl e \<Rightarrow> Inl e
        | Inr option_values \<Rightarrow> Inr (backward_pass q R n option_values ! 0 ! 0))"

subsection \<open>American exercise\<close>

text \<open>
  The script's docstring announces a pricer "for american put or call option", but its
  backward pass (line 48) stores the continuation value at every node: there is no
  early-exercise rule in the source. The definitions of this subsection are the
  specification's \<open>discount_backward\<close> and \<open>price\<close> with an exercise style.
\<close>

datatype exercise = european | american

definition payoff :: "string \<Rightarrow> real \<Rightarrow> npfloat \<Rightarrow> npfloat" where
  \<comment> \<open>the payoff rule of lines 38 and 41, at one underlying price\<close>
  "payoff option_type K s =
     (if option_type = ''call'' then np_maximum 0 (fsub s (Some K))
      else np_maximum 0 (fsub (Some K) s))"

text \<open>
  Modelled from the spec: the exercise rule of \<open>discount_backward\<close>, missing from the
  source. "If exercise == american, the node value is max(C, intrinsic(i,j)) where
  intrinsic reuses the same payoff rule as the terminal layer applied to the node's
  underlying price; if exercise == european, the node value is C unconditionally."
\<close>

definition node_value :: "exercise \<Rightarrow> npfloat \<Rightarrow> npfloat \<Rightarrow> npfloat" where
  "node_value ex C intrinsic = (case ex of european \<Rightarrow> C | american \<Rightarrow> lift2 max C intrinsic)"

definition discount_node ::
  "exercise \<Rightarrow> string \<Rightarrow> real \<Rightarrow> grid \<Rightarrow> npfloat \<Rightarrow> npfloat \<Rightarrow> nat \<Rightarrow> nat \<Rightarrow> grid \<Rightarrow> grid" where
  "discount_node ex option_type K stock_prices q R i j g =
     set2 g i j
       (node_value ex (continuation q R g i j) (payoff option_type K (stock_prices ! i ! j)))"

definition discount_layer ::
  "exercise \<Rightarrow> string \<Rightarrow> real \<Rightarrow> grid \<Rightarrow> npfloat \<Rightarrow> npfloat \<Rightarrow> nat \<Rightarrow> grid \<Rightarrow> grid" where
  "discount_layer ex option_type K stock_prices q R i g =
     fold (discount_node ex option_type K stock_prices q R i) [0..<i + 1] g"

definition discount_backward ::
  "exercise \<Rightarrow> string \<Rightarrow> real \<Rightarrow> grid \<Rightarrow> npfloat \<Rightarrow> npfloat \<Rightarrow> nat \<Rightarrow> grid \<Rightarrow> grid" where
  "discount_backward ex option_type K stock_prices q R n g =
     fold (discount_layer ex option_type K stock_prices q R) (rev [0..<n]) g"

text \<open>
  Modelled from the spec: the validation errors of \<open>price\<close>, missing from the source.
  "Taxonomy: InvalidParameter (non-positive S/K/T, negative sigma, N<1),
  InvalidOptionKind (kind outside {call, put}), ArbitrageViolation (risk-neutral
  probability outside (0,1))."
\<close>

datatype price_error = InvalidParameter | InvalidOptionKind | ArbitrageViolation

text \<open>
  Modelled from the spec: \<open>price\<close> with an exercise style, missing from the source.
  "Error conditions (fail fast, before any grid allocation): N < 1, S <= 0, K <= 0,
  T <= 0, sigma < 0, or a no-arbitrage violation (d >= R or R >= u) each raise a
  distinct, named validation error." An accepted parameter set is priced on the
  lattice of lines 25 to 31 with the terminal payoff of lines 38 and 41 and with
  \<open>discount_backward\<close>.
\<close>

definition price ::
  "real \<Rightarrow> real \<Rightarrow> real \<Rightarrow> real \<Rightarrow> real \<Rightarrow> int \<Rightarrow> string \<Rightarrow> exercise \<Rightarrow> price_error + npfloat" where
  "price S K T r sigma N option_type ex =
     (if N < 1 \<or> S \<le> 0 \<or> K \<le> 0 \<or> T \<le> 0 \<or> sigma < 0 then Inl InvalidParameter
      else if option_type \<noteq> ''call'' \<and> option_type \<noteq> ''put'' then Inl InvalidOptionKind
      else
        let u = exp (sigma * sqrt (T / real_of_int N));
            d = exp (- sigma * sqrt (T / real_of_int N));
            R = exp (r * (T / real_of_int N));
            q = (R - d) / (u - d);
            n = nat N
        in
          if d \<ge> R \<or> R \<ge> u then Inl ArbitrageViolation
          else
            let stock_prices = build_stock_prices S (Some u) (Some d) n;
                option_values =
                  (np_zeros (n + 1) (n + 1))[n := map (payoff option_type K) (stock_prices ! n)]
            in
              Inr (discount_backward ex option_type K stock_prices (Some q) (Some R) n
                     option_values ! 0 ! 0))"

subsection \<open>The lattice in real arithmetic\<close>

text \<open>
  The value of the node \<open>k\<close> layers before maturity in a lattice of \<open>n\<close> steps, as a
  function of the intrinsic values \<open>intr i j\<close> of the nodes. The facts about prices
  are proved of this function and carried over to the grids.
\<close>

primrec lattice_value ::
  "exercise \<Rightarrow> (nat \<Rightarrow> nat \<Rightarrow> real) \<Rightarrow> real \<Rightarrow> real \<Rightarrow> nat \<Rightarrow> nat \<Rightarrow> nat \<Rightarrow> real" where
  "lattice_value ex intr q R n 0 j = intr n j"
| "lattice_value ex intr q R n (Suc k) j =
     (let C = (q * lattice_value ex intr q R n k j
               + (1 - q) * lattice_value ex intr q R n k (Suc j)) / R
      in case ex of european \<Rightarrow> C | american \<Rightarrow> max C (intr (n - Suc k) j))"

definition intrinsic :: "string \<Rightarrow> real \<Rightarrow> real \<Rightarrow> real \<Rightarrow> real \<Rightarrow> nat \<Rightarrow> nat \<Rightarrow> real" where
  "intrinsic option_type S K u d i j =
     (if option_type = ''call'' then max 0 (S * u ^ (i - j) * d ^ j - K)
      else max 0 (K - S * u ^ (i - j) * d ^ j))"

section \<open>Arrays and loops\<close>

lemma lift2_simps [simp]:
  "lift2 f (Some x) (Some y) = Some (f x y)"
  "lift2 f None b = None"
  "lift2 f a None = None"
  by (simp_all add: lift2_def split: option.splits)

lemma fdiv_simps [simp]:
  "fdiv a None = None"
  "fdiv None b = None"
  "fdiv a (Some 0) = None"
  "y \<noteq> 0 \<Longrightarrow> fdiv (Some x) (Some y) = Some (x / y)"
  by (simp_all add: fdiv_def split: option.splits)

lemma shaped_set2: "shaped m g \<Longrightarrow> shaped m (set2 g i j v)"
proof -
  assume sh: "shaped m g"
  have "length (g[i := (g ! i)[j := v]] ! a) = m" if "a < m" for a
    using sh that by (cases "a = i") (simp_all add: shaped_def list_all_length)
  with sh show ?thesis
    by (simp add: shaped_def set2_def list_all_length)
qed

lemma nth_set2:
  "shaped m g \<Longrightarrow> i < m \<Longrightarrow> j < m \<Longrightarrow>
   set2 g i j v ! a ! b = (if a = i \<and> b = j then v else g ! a ! b)"
  by (auto simp: shaped_def set2_def list_all_length nth_list_update)

lemma shaped_zeros: "shaped m (np_zeros m m)"
  by (simp add: shaped_def np_zeros_def list_all_length)

lemma nth_zeros: "a < m \<Longrightarrow> b < m \<Longrightarrow> np_zeros m m ! a ! b = Some 0"
  by (simp add: np_zeros_def)

lemma fold_upt_Suc: "a \<le> b \<Longrightarrow> fold f [a..<Suc b] x = f b (fold f [a..<b] x)"
  by simp

lemma stock_down_moves_fold:
  assumes "shaped m g" "0 < i" "i < m"
  shows "k \<le> i \<Longrightarrow>
    shaped m (fold (\<lambda>j g. set2 g i j (fmul (g ! (i - 1) ! (j - 1)) d)) [1..<k + 1] g) \<and>
    (\<forall>a b. fold (\<lambda>j g. set2 g i j (fmul (g ! (i - 1) ! (j - 1)) d)) [1..<k + 1] g ! a ! b =
       (if a = i \<and> 1 \<le> b \<and> b \<le> k then fmul (g ! (i - 1) ! (b - 1)) d else g ! a ! b))"
proof (induction k)
  case 0
  then show ?case using assms by simp
next
  case (Suc k)
  define F where "F = (\<lambda>j g. set2 g i j (fmul (g ! (i - 1) ! (j - 1)) d))"
  define h where "h = fold F [1..<k + 1] g"
  from Suc have sh: "shaped m h"
    and nth: "\<And>a b. h ! a ! b =
       (if a = i \<and> 1 \<le> b \<and> b \<le> k then fmul (g ! (i - 1) ! (b - 1)) d else g ! a ! b)"
    by (auto simp: h_def F_def)
  have step: "fold F [1..<Suc k + 1] g = set2 h i (Suc k) (fmul (h ! (i - 1) ! k) d)"
    by (simp add: h_def F_def)
  have lt: "Suc k < m" using Suc.prems assms by simp
  have "i - 1 \<noteq> i"
    using assms(2) by simp
  then have rd: "h ! (i - 1) ! k = g ! (i - 1) ! k"
    by (simp add: nth)
  have "set2 h i (Suc k) (fmul (h ! (i - 1) ! k) d) ! a ! b =
       (if a = i \<and> 1 \<le> b \<and> b \<le> Suc k then fmul (g ! (i - 1) ! (b - 1)) d else g ! a ! b)" for a b
  proof (cases "a = i \<and> b = Suc k")
    case True
    then show ?thesis
      using rd by (simp add: nth_set2 [OF sh \<open>i < m\<close> lt])
  next
    case False
    then have "set2 h i (Suc k) (fmul (h ! (i - 1) ! k) d) ! a ! b = h ! a ! b"
      by (auto simp: nth_set2 [OF sh \<open>i < m\<close> lt])
    also have "\<dots> = (if a = i \<and> 1 \<le> b \<and> b \<le> Suc k then fmul (g ! (i - 1) ! (b - 1)) d else g ! a ! b)"
      using False by (auto simp: nth)
    finally show ?thesis .
  qed
  moreover have "shaped m (set2 h i (Suc k) (fmul (h ! (i - 1) ! k) d))"
    using sh by (rule shaped_set2)
  ultimately show ?case
    unfolding F_def [symmetric] step by blast
qed

lemma stock_layer_nth:
  assumes "shaped m g" "0 < i" "i < m"
  shows "shaped m (stock_layer u d i g)"
    and "stock_layer u d i g ! a ! b =
       (if a = i \<and> b \<le> i
        then (if b = 0 then fmul (g ! (i - 1) ! 0) u else fmul (g ! (i - 1) ! (b - 1)) d)
        else g ! a ! b)"
proof -
  define g0 where "g0 = set2 g i 0 (fmul (g ! (i - 1) ! 0) u)"
  have sh0: "shaped m g0"
    unfolding g0_def using assms(1) by (rule shaped_set2)
  have nth0: "g0 ! a ! b = (if a = i \<and> b = 0 then fmul (g ! (i - 1) ! 0) u else g ! a ! b)" for a b
    unfolding g0_def using assms by (simp add: nth_set2 [OF assms(1)])
  have eq: "stock_layer u d i g =
      fold (\<lambda>j g. set2 g i j (fmul (g ! (i - 1) ! (j - 1)) d)) [1..<i + 1] g0"
    by (simp add: stock_layer_def stock_down_moves_def g0_def)
  note inv = stock_down_moves_fold [OF sh0 assms(2,3), of i d, simplified eq [symmetric]]
  show "shaped m (stock_layer u d i g)"
    using inv by simp
  have "stock_layer u d i g ! a ! b =
      (if a = i \<and> 1 \<le> b \<and> b \<le> i then fmul (g0 ! (i - 1) ! (b - 1)) d else g0 ! a ! b)"
    using inv by simp
  also have "\<dots> = (if a = i \<and> b \<le> i
        then (if b = 0 then fmul (g ! (i - 1) ! 0) u else fmul (g ! (i - 1) ! (b - 1)) d)
        else g ! a ! b)"
    using assms(2) by (auto simp: nth0)
  finally show "stock_layer u d i g ! a ! b =
       (if a = i \<and> b \<le> i
        then (if b = 0 then fmul (g ! (i - 1) ! 0) u else fmul (g ! (i - 1) ! (b - 1)) d)
        else g ! a ! b)" .
qed


lemma fmul_Some [simp]: "fmul (Some x) (Some y) = Some (x * y)"
  by (simp add: fmul_def)

lemma stock_fold:
  "k \<le> n \<Longrightarrow>
   shaped (n + 1) (fold (stock_layer (Some u) (Some d)) [1..<k + 1]
      (set2 (np_zeros (n + 1) (n + 1)) 0 0 (Some S))) \<and>
   (\<forall>i j. i \<le> k \<longrightarrow> j \<le> i \<longrightarrow>
      fold (stock_layer (Some u) (Some d)) [1..<k + 1]
        (set2 (np_zeros (n + 1) (n + 1)) 0 0 (Some S)) ! i ! j = Some (S * u ^ (i - j) * d ^ j))"
proof (induction k)
  case 0
  have sh: "shaped (n + 1) (np_zeros (n + 1) (n + 1))"
    by (rule shaped_zeros)
  show ?case
    using shaped_set2 [OF sh, of 0 0 "Some S"] nth_set2 [OF sh, of 0 0 "Some S" 0 0] by simp
next
  case (Suc k)
  define h where "h = fold (stock_layer (Some u) (Some d)) [1..<k + 1]
      (set2 (np_zeros (n + 1) (n + 1)) 0 0 (Some S))"
  from Suc have sh: "shaped (n + 1) h"
    and nth: "\<And>i j. i \<le> k \<Longrightarrow> j \<le> i \<Longrightarrow> h ! i ! j = Some (S * u ^ (i - j) * d ^ j)"
    by (auto simp: h_def)
  have step: "fold (stock_layer (Some u) (Some d)) [1..<Suc k + 1]
      (set2 (np_zeros (n + 1) (n + 1)) 0 0 (Some S)) = stock_layer (Some u) (Some d) (Suc k) h"
    by (simp add: h_def)
  have lt: "Suc k < n + 1" using Suc.prems by simp
  note layer = stock_layer_nth [OF sh _ lt, of "Some u" "Some d"]
  have "stock_layer (Some u) (Some d) (Suc k) h ! i ! j = Some (S * u ^ (i - j) * d ^ j)"
    if "i \<le> Suc k" "j \<le> i" for i j
  proof (cases "i = Suc k")
    case False
    with that show ?thesis
      by (simp add: layer(2) nth)
  next
    case True
    show ?thesis
    proof (cases j)
      case 0
      with True show ?thesis
        by (simp add: layer(2) nth)
    next
      case (Suc j')
      with True that have "j' \<le> k" by simp
      then have "Suc k - Suc j' = k - j'" by simp
      with True Suc that \<open>j' \<le> k\<close> show ?thesis
        by (simp add: layer(2) nth)
    qed
  qed
  moreover have "shaped (n + 1) (stock_layer (Some u) (Some d) (Suc k) h)"
    using layer(1) by simp
  ultimately show ?case
    unfolding step by blast
qed

lemma build_stock_prices_shaped: "shaped (n + 1) (build_stock_prices S (Some u) (Some d) n)"
  using stock_fold [of n n u d S] by (simp add: build_stock_prices_def)

lemma build_stock_prices_nth:
  "i \<le> n \<Longrightarrow> j \<le> i \<Longrightarrow>
   build_stock_prices S (Some u) (Some d) n ! i ! j = Some (S * u ^ (i - j) * d ^ j)"
  using stock_fold [of n n u d S] by (simp add: build_stock_prices_def)

subsection \<open>The backward pass\<close>

lemma backward_node_discount:
  "backward_node q R i = discount_node european option_type K stock_prices q R i"
  by (rule ext, rule ext) (simp add: backward_node_def discount_node_def node_value_def)

lemma backward_pass_discount:
  "backward_pass q R n g = discount_backward european option_type K stock_prices q R n g"
proof -
  have "backward_layer q R = discount_layer european option_type K stock_prices q R"
    by (rule ext, rule ext)
      (simp add: backward_layer_def discount_layer_def
         backward_node_discount [of q R _ option_type K stock_prices])
  then show ?thesis
    by (simp add: backward_pass_def discount_backward_def)
qed

lemma discount_layer_fold:
  assumes "shaped m g" "i + 1 < m"
  shows "k \<le> i + 1 \<Longrightarrow>
    shaped m (fold (discount_node ex ot K sp q R i) [0..<k] g) \<and>
    (\<forall>a b. fold (discount_node ex ot K sp q R i) [0..<k] g ! a ! b =
       (if a = i \<and> b < k
        then node_value ex (continuation q R g i b) (payoff ot K (sp ! i ! b))
        else g ! a ! b))"
proof (induction k)
  case 0
  then show ?case using assms by simp
next
  case (Suc k)
  define h where "h = fold (discount_node ex ot K sp q R i) [0..<k] g"
  from Suc have sh: "shaped m h"
    and nth: "\<And>a b. h ! a ! b =
       (if a = i \<and> b < k
        then node_value ex (continuation q R g i b) (payoff ot K (sp ! i ! b))
        else g ! a ! b)"
    by (auto simp: h_def)
  have step: "fold (discount_node ex ot K sp q R i) [0..<Suc k] g
      = set2 h i k (node_value ex (continuation q R h i k) (payoff ot K (sp ! i ! k)))"
    by (simp add: h_def discount_node_def)
  have lt: "i < m" "k < m" using Suc.prems assms by simp_all
  have rd: "continuation q R h i k = continuation q R g i k"
    by (simp add: continuation_def nth)
  have "set2 h i k (node_value ex (continuation q R h i k) (payoff ot K (sp ! i ! k))) ! a ! b =
       (if a = i \<and> b < Suc k
        then node_value ex (continuation q R g i b) (payoff ot K (sp ! i ! b))
        else g ! a ! b)" for a b
  proof (cases "a = i \<and> b = k")
    case True
    then show ?thesis
      by (simp add: nth_set2 [OF sh lt] rd)
  next
    case False
    then have "set2 h i k (node_value ex (continuation q R h i k) (payoff ot K (sp ! i ! k))) ! a ! b
        = h ! a ! b"
      by (auto simp: nth_set2 [OF sh lt])
    also have "\<dots> = (if a = i \<and> b < Suc k
        then node_value ex (continuation q R g i b) (payoff ot K (sp ! i ! b))
        else g ! a ! b)"
      using False by (auto simp: nth less_Suc_eq)
    finally show ?thesis .
  qed
  moreover have "shaped m (set2 h i k (node_value ex (continuation q R h i k) (payoff ot K (sp ! i ! k))))"
    using sh by (rule shaped_set2)
  ultimately show ?case
    unfolding step by blast
qed

lemma discount_layer_nth:
  assumes "shaped m g" "i + 1 < m"
  shows "shaped m (discount_layer ex ot K sp q R i g)"
    and "discount_layer ex ot K sp q R i g ! a ! b =
       (if a = i \<and> b \<le> i
        then node_value ex (continuation q R g i b) (payoff ot K (sp ! i ! b))
        else g ! a ! b)"
  using discount_layer_fold [OF assms, of "i + 1" ex ot K sp q R]
  by (simp_all add: discount_layer_def less_Suc_eq_le)

lemma discount_backward_fold:
  "shaped (n + 1) g \<Longrightarrow> k \<le> n \<Longrightarrow>
    shaped (n + 1) (fold (discount_layer ex ot K sp q R) (rev [0..<k]) g) \<and>
    (\<forall>a b. k \<le> a \<longrightarrow> fold (discount_layer ex ot K sp q R) (rev [0..<k]) g ! a ! b = g ! a ! b) \<and>
    (\<forall>i j. i < k \<longrightarrow> j \<le> i \<longrightarrow>
       fold (discount_layer ex ot K sp q R) (rev [0..<k]) g ! i ! j =
         node_value ex
           (continuation q R (fold (discount_layer ex ot K sp q R) (rev [0..<k]) g) i j)
           (payoff ot K (sp ! i ! j)))"
proof (induction k arbitrary: g)
  case 0
  then show ?case by simp
next
  case (Suc k)
  define g1 where "g1 = discount_layer ex ot K sp q R k g"
  define h where "h = fold (discount_layer ex ot K sp q R) (rev [0..<k]) g1"
  have lt: "k + 1 < n + 1" using Suc.prems by simp
  note layer = discount_layer_nth [OF Suc.prems(1) lt, of ex ot K sp q R, folded g1_def]
  have "k \<le> n" using Suc.prems by simp
  from Suc.IH [OF layer(1) this]
  have sh: "shaped (n + 1) h"
    and keep: "\<And>a b. k \<le> a \<Longrightarrow> h ! a ! b = g1 ! a ! b"
    and rec: "\<And>i j. i < k \<Longrightarrow> j \<le> i \<Longrightarrow>
       h ! i ! j = node_value ex (continuation q R h i j) (payoff ot K (sp ! i ! j))"
    by (auto simp: h_def)
  have step: "fold (discount_layer ex ot K sp q R) (rev [0..<Suc k]) g = h"
    by (simp add: h_def g1_def)
  have keep': "h ! a ! b = g ! a ! b" if "Suc k \<le> a" for a b
    using that by (simp add: keep layer(2))
  have "h ! i ! j = node_value ex (continuation q R h i j) (payoff ot K (sp ! i ! j))"
    if "i < Suc k" "j \<le> i" for i j
  proof (cases "i = k")
    case False
    with that show ?thesis by (simp add: rec)
  next
    case True
    have "continuation q R h k j = continuation q R g k j"
      by (simp add: continuation_def keep')
    with True that show ?thesis
      by (simp add: keep layer(2))
  qed
  with sh keep' show ?case
    unfolding step by blast
qed

lemma discount_backward_shaped:
  "shaped (n + 1) g \<Longrightarrow> shaped (n + 1) (discount_backward ex ot K sp q R n g)"
  using discount_backward_fold [of n g n ex ot K sp q R]
  by (simp add: discount_backward_def)

lemma discount_backward_last:
  "shaped (n + 1) g \<Longrightarrow> discount_backward ex ot K sp q R n g ! n ! j = g ! n ! j"
  using discount_backward_fold [of n g n ex ot K sp q R]
  by (simp add: discount_backward_def)

lemma discount_backward_rec:
  "shaped (n + 1) g \<Longrightarrow> i < n \<Longrightarrow> j \<le> i \<Longrightarrow>
   discount_backward ex ot K sp q R n g ! i ! j =
     node_value ex (continuation q R (discount_backward ex ot K sp q R n g) i j)
       (payoff ot K (sp ! i ! j))"
  using discount_backward_fold [of n g n ex ot K sp q R]
  by (simp add: discount_backward_def)

subsection \<open>The grids in real arithmetic\<close>

lemma payoff_Some:
  "payoff ot K (Some (S * u ^ (i - j) * d ^ j)) = Some (intrinsic ot S K u d i j)"
  by (simp add: payoff_def intrinsic_def np_maximum_def fsub_def)

lemma payoff_call: "payoff ''call'' K = (\<lambda>s. np_maximum 0 (fsub s (Some K)))"
  by (rule ext) (simp add: payoff_def)

lemma payoff_put: "payoff ''put'' K = (\<lambda>s. np_maximum 0 (fsub (Some K) s))"
  by (rule ext) (simp add: payoff_def)

lemma terminal_payoff_Inr:
  "ot = ''call'' \<or> ot = ''put'' \<Longrightarrow>
   terminal_payoff sp K n ot = Inr ((np_zeros (n + 1) (n + 1))[n := map (payoff ot K) (sp ! n)])"
  by (auto simp: terminal_payoff_def payoff_call payoff_put)

lemma terminal_payoff_Inl:
  "ot \<noteq> ''call'' \<Longrightarrow> ot \<noteq> ''put'' \<Longrightarrow> terminal_payoff sp K n ot = Inl ValueError_option_type"
  by (simp add: terminal_payoff_def)

lemma shaped_row_update:
  assumes "shaped m z" "length row = m"
  shows "shaped m (z[n := row])"
proof -
  have "length (z[n := row] ! a) = m" if "a < m" for a
    using assms that by (cases "a = n") (simp_all add: shaped_def list_all_length)
  with assms(1) show ?thesis
    by (simp add: shaped_def list_all_length)
qed

lemma terminal_shaped:
  assumes "shaped (n + 1) sp"
  shows "shaped (n + 1) ((np_zeros (n + 1) (n + 1))[n := map f (sp ! n)])"
proof -
  have "length (map f (sp ! n)) = n + 1"
    using assms by (simp add: shaped_def list_all_length)
  with shaped_zeros show ?thesis
    by (rule shaped_row_update)
qed

lemma terminal_nth:
  assumes "shaped (n + 1) sp" "j \<le> n"
  shows "(np_zeros (n + 1) (n + 1))[n := map f (sp ! n)] ! n ! j = f (sp ! n ! j)"
proof -
  have "length (sp ! n) = n + 1"
    using assms by (simp add: shaped_def list_all_length)
  moreover have "n < length (np_zeros (n + 1) (n + 1))"
    using shaped_zeros [of "n + 1"] by (simp add: shaped_def)
  ultimately show ?thesis
    using assms(2) by simp
qed

lemma node_value_Some:
  "node_value ex (Some C) (Some x) = Some (case ex of european \<Rightarrow> C | american \<Rightarrow> max C x)"
  by (simp add: node_value_def split: exercise.splits)

lemma continuation_Some:
  "R \<noteq> 0 \<Longrightarrow> g ! (i + 1) ! j = Some v1 \<Longrightarrow> g ! (i + 1) ! (j + 1) = Some v2 \<Longrightarrow>
   continuation (Some q) (Some R) g i j = Some ((q * v1 + (1 - q) * v2) / R)"
  by (simp add: continuation_def fadd_def fsub_def)

text \<open>The option value grid in terms of lattice_value.\<close>

lemma discount_backward_value:
  assumes ot: "ot = ''call'' \<or> ot = ''put''" and R: "R \<noteq> 0"
    and sp_def: "sp = build_stock_prices S (Some u) (Some d) n"
    and ov_def: "ov = (np_zeros (n + 1) (n + 1))[n := map (payoff ot K) (sp ! n)]"
  shows "k \<le> n \<Longrightarrow> j \<le> n - k \<Longrightarrow>
    discount_backward ex ot K sp (Some q) (Some R) n ov ! (n - k) ! j =
      Some (lattice_value ex (intrinsic ot S K u d) q R n k j)"
proof (induction k arbitrary: j)
  case 0
  have sh: "shaped (n + 1) sp"
    unfolding sp_def by (rule build_stock_prices_shaped)
  have "shaped (n + 1) ov"
    unfolding ov_def using sh by (rule terminal_shaped)
  then have "discount_backward ex ot K sp (Some q) (Some R) n ov ! n ! j = ov ! n ! j"
    by (rule discount_backward_last)
  also have "\<dots> = payoff ot K (sp ! n ! j)"
    unfolding ov_def using sh 0 by (intro terminal_nth) simp_all
  also have "\<dots> = Some (intrinsic ot S K u d n j)"
    using 0 by (simp add: sp_def build_stock_prices_nth payoff_Some)
  finally show ?case by simp
next
  case (Suc k)
  define V where "V = discount_backward ex ot K sp (Some q) (Some R) n ov"
  have sh: "shaped (n + 1) sp"
    unfolding sp_def by (rule build_stock_prices_shaped)
  have shov: "shaped (n + 1) ov"
    unfolding ov_def using sh by (rule terminal_shaped)
  have idx: "n - Suc k + 1 = n - k" "n - Suc k < n"
    using Suc.prems by simp_all
  have v1: "V ! (n - Suc k + 1) ! j = Some (lattice_value ex (intrinsic ot S K u d) q R n k j)"
    unfolding idx V_def using Suc.prems by (intro Suc.IH) simp_all
  have v2: "V ! (n - Suc k + 1) ! (j + 1) = Some (lattice_value ex (intrinsic ot S K u d) q R n k (Suc j))"
    unfolding idx V_def using Suc.prems by (simp add: Suc.IH)
  have "sp ! (n - Suc k) ! j = Some (S * u ^ (n - Suc k - j) * d ^ j)"
    unfolding sp_def using Suc.prems by (intro build_stock_prices_nth) simp_all
  then have st: "payoff ot K (sp ! (n - Suc k) ! j) = Some (intrinsic ot S K u d (n - Suc k) j)"
    by (simp only: payoff_Some)
  have "V ! (n - Suc k) ! j =
     node_value ex (continuation (Some q) (Some R) V (n - Suc k) j)
       (payoff ot K (sp ! (n - Suc k) ! j))"
    unfolding V_def using shov idx(2) Suc.prems(2) by (rule discount_backward_rec)
  also have "\<dots> = Some (lattice_value ex (intrinsic ot S K u d) q R n (Suc k) j)"
    by (simp add: continuation_Some [OF R v1 v2] st node_value_Some Let_def)
  finally show ?case
    by (simp add: V_def)
qed

subsection \<open>The factors and the errors\<close>

lemma delta_t_nonneg: "0 \<le> T \<Longrightarrow> 1 \<le> N \<Longrightarrow> 0 \<le> delta_t T N"
  by (simp add: delta_t_def)

lemma delta_t_pos: "0 < T \<Longrightarrow> 1 \<le> N \<Longrightarrow> 0 < delta_t T N"
  by (simp add: delta_t_def)

lemma factor_u_Some:
  "0 \<le> delta_t T N \<Longrightarrow> factor_u T sigma N = Some (exp (sigma * sqrt (delta_t T N)))"
  by (simp add: factor_u_def np_exp_def np_sqrt_def)

lemma factor_d_Some:
  "0 \<le> delta_t T N \<Longrightarrow> factor_d T sigma N = Some (exp (- sigma * sqrt (delta_t T N)))"
  by (simp add: factor_d_def np_exp_def np_sqrt_def)

lemma factor_R_Some: "factor_R T r N = Some (exp (r * delta_t T N))"
  by (simp add: factor_R_def np_exp_def)

lemma prob_q_Some:
  assumes "0 < delta_t T N" "sigma \<noteq> 0"
  shows "prob_q T r sigma N =
     Some ((exp (r * delta_t T N) - exp (- sigma * sqrt (delta_t T N)))
           / (exp (sigma * sqrt (delta_t T N)) - exp (- sigma * sqrt (delta_t T N))))"
proof -
  have "sigma * sqrt (delta_t T N) \<noteq> 0"
    using assms by simp
  then have "exp (sigma * sqrt (delta_t T N)) \<noteq> exp (- sigma * sqrt (delta_t T N))"
    by simp
  with assms(1) show ?thesis
    by (simp add: prob_q_def factor_u_Some factor_d_Some factor_R_Some fsub_def)
qed

lemma prob_q_None:
  assumes "0 \<le> delta_t T N" "sigma = 0"
  shows "prob_q T r sigma N = None"
  using assms by (simp add: prob_q_def factor_u_Some factor_d_Some factor_R_Some fsub_def)

lemma lattices_Inr:
  assumes "1 \<le> N" "ot = ''call'' \<or> ot = ''put''"
  shows "lattices S K T r sigma N ot =
    Inr (build_stock_prices S (factor_u T sigma N) (factor_d T sigma N) (nat N),
         discount_backward european ot K
           (build_stock_prices S (factor_u T sigma N) (factor_d T sigma N) (nat N))
           (prob_q T r sigma N) (factor_R T r N) (nat N)
           ((np_zeros (nat N + 1) (nat N + 1))
              [nat N := map (payoff ot K)
                 (build_stock_prices S (factor_u T sigma N) (factor_d T sigma N) (nat N) ! nat N)]))"
  using assms
  by (simp add: lattices_def Let_def terminal_payoff_Inr
      backward_pass_discount [of _ _ _ _ ot K
        "build_stock_prices S (factor_u T sigma N) (factor_d T sigma N) (nat N)"])

lemma pricer_Inl_iff:
  "binomial_option_pricer S K T r sigma N ot = Inl e \<longleftrightarrow>
     (N = 0 \<and> e = ZeroDivisionError) \<or>
     (N < - 1 \<and> e = ValueError_negative_dimensions) \<or>
     (N = - 1 \<and> e = IndexError) \<or>
     (1 \<le> N \<and> ot \<noteq> ''call'' \<and> ot \<noteq> ''put'' \<and> e = ValueError_option_type)"
  by (auto simp: binomial_option_pricer_def lattices_def Let_def terminal_payoff_def
      split: sum.splits)

subsection \<open>Properties of the lattice in real arithmetic\<close>

lemma intrinsic_nonneg: "0 \<le> intrinsic ot S K u d i j"
  by (simp add: intrinsic_def)

lemma lattice_value_nonneg:
  assumes "0 \<le> q" "q \<le> 1" "0 < R" "\<And>i j. 0 \<le> intr i j"
  shows "0 \<le> lattice_value ex intr q R n k j"
proof (induction k arbitrary: j)
  case 0
  show ?case by (simp add: assms(4))
next
  case (Suc k)
  have "0 \<le> q * lattice_value ex intr q R n k j + (1 - q) * lattice_value ex intr q R n k (Suc j)"
    using assms(1,2) Suc by simp
  then have "0 \<le> (q * lattice_value ex intr q R n k j
      + (1 - q) * lattice_value ex intr q R n k (Suc j)) / R"
    using assms(3) by simp
  then show ?case
    by (cases ex) (simp_all add: Let_def max_def)
qed

lemma lattice_value_mono:
  assumes "0 \<le> q" "q \<le> 1" "0 < R" "\<And>j. f n j \<le> g n j"
  shows "lattice_value european f q R n k j \<le> lattice_value european g q R n k j"
proof (induction k arbitrary: j)
  case 0
  show ?case by (simp add: assms(4))
next
  case (Suc k)
  have "q * lattice_value european f q R n k j \<le> q * lattice_value european g q R n k j"
    using assms(1) Suc by (rule mult_left_mono [rotated])
  moreover have "(1 - q) * lattice_value european f q R n k (Suc j)
      \<le> (1 - q) * lattice_value european g q R n k (Suc j)"
    using assms(2) Suc by (intro mult_left_mono) simp_all
  ultimately show ?case
    using assms(3) by (simp add: divide_right_mono add_mono)
qed

text \<open>Strictness travels along the all-up path when q > 0.\<close>

lemma lattice_value_strict_up:
  assumes "0 < q" "q \<le> 1" "0 < R" "\<And>j. f n j \<le> g n j" "f n 0 < g n 0"
  shows "lattice_value european f q R n k 0 < lattice_value european g q R n k 0"
proof (induction k)
  case 0
  show ?case by (simp add: assms(5))
next
  case (Suc k)
  have "q * lattice_value european f q R n k 0 < q * lattice_value european g q R n k 0"
    using assms(1) Suc by simp
  moreover have "lattice_value european f q R n k (Suc 0) \<le> lattice_value european g q R n k (Suc 0)"
    using assms(1-4) by (intro lattice_value_mono) simp_all
  then have "(1 - q) * lattice_value european f q R n k (Suc 0)
      \<le> (1 - q) * lattice_value european g q R n k (Suc 0)"
    using assms(2) by (intro mult_left_mono) simp_all
  ultimately show ?case
    using assms(3) by (simp add: divide_strict_right_mono add_less_le_mono)
qed

text \<open>Strictness travels along the all-down path when q < 1.\<close>

lemma lattice_value_strict_down:
  assumes "0 \<le> q" "q < 1" "0 < R" "\<And>j. f n j \<le> g n j" "f n (m + k) < g n (m + k)"
  shows "lattice_value european f q R n k m < lattice_value european g q R n k m"
  using assms(5)
proof (induction k arbitrary: m)
  case 0
  then show ?case by simp
next
  case (Suc k)
  have "lattice_value european f q R n k m \<le> lattice_value european g q R n k m"
    using assms(1-4) by (intro lattice_value_mono) simp_all
  then have "q * lattice_value european f q R n k m \<le> q * lattice_value european g q R n k m"
    using assms(1) by (intro mult_left_mono) simp_all
  moreover have "lattice_value european f q R n k (Suc m) < lattice_value european g q R n k (Suc m)"
    using Suc.prems by (intro Suc.IH) simp
  then have "(1 - q) * lattice_value european f q R n k (Suc m)
      < (1 - q) * lattice_value european g q R n k (Suc m)"
    using assms(2) by simp
  ultimately show ?case
    using assms(3) by (simp add: divide_strict_right_mono add_le_less_mono)
qed

lemma lattice_value_american_ge:
  assumes "0 \<le> q" "q \<le> 1" "0 < R"
  shows "lattice_value european intr q R n k j \<le> lattice_value american intr q R n k j"
proof (induction k arbitrary: j)
  case 0
  show ?case by simp
next
  case (Suc k)
  have "q * lattice_value european intr q R n k j \<le> q * lattice_value american intr q R n k j"
    using assms(1) Suc by (intro mult_left_mono) simp_all
  moreover have "(1 - q) * lattice_value european intr q R n k (Suc j)
      \<le> (1 - q) * lattice_value american intr q R n k (Suc j)"
    using assms(2) Suc by (intro mult_left_mono) simp_all
  ultimately have "(q * lattice_value european intr q R n k j
        + (1 - q) * lattice_value european intr q R n k (Suc j)) / R
     \<le> (q * lattice_value american intr q R n k j
        + (1 - q) * lattice_value american intr q R n k (Suc j)) / R"
    using assms(3) by (simp add: divide_right_mono add_mono)
  then show ?case
    by (simp add: Let_def)
qed

lemma lattice_value_parity:
  assumes "q * u + (1 - q) * d = R" "R \<noteq> 0"
  shows "j \<le> n - k \<Longrightarrow> k \<le> n \<Longrightarrow>
    lattice_value european (intrinsic ''call'' S K u d) q R n k j
    - lattice_value european (intrinsic ''put'' S K u d) q R n k j
    = S * u ^ (n - k - j) * d ^ j - K / R ^ k"
proof (induction k arbitrary: j)
  case 0
  show ?case by (simp add: intrinsic_def max_def)
next
  case (Suc k)
  define c where "c = lattice_value european (intrinsic ''call'' S K u d) q R n k"
  define p where "p = lattice_value european (intrinsic ''put'' S K u d) q R n k"
  define a where "a = n - Suc k - j"
  have e1: "n - k - j = Suc a" and e2: "n - k - Suc j = a"
    using Suc.prems by (simp_all add: a_def)
  define x where "x = K / R ^ k"
  have h1: "c j - p j = S * u ^ Suc a * d ^ j - x"
    unfolding c_def p_def x_def e1 [symmetric] using Suc.prems by (intro Suc.IH) simp_all
  have h2: "c (Suc j) - p (Suc j) = S * u ^ a * d ^ Suc j - x"
    unfolding c_def p_def x_def e2 [symmetric] using Suc.prems by (intro Suc.IH) simp_all
  have "(q * c j + (1 - q) * c (Suc j)) / R - (q * p j + (1 - q) * p (Suc j)) / R
      = (q * (c j - p j) + (1 - q) * (c (Suc j) - p (Suc j))) / R"
    unfolding diff_divide_distrib [symmetric] by (simp add: algebra_simps)
  also have "q * (c j - p j) + (1 - q) * (c (Suc j) - p (Suc j))
      = S * u ^ a * d ^ j * (q * u + (1 - q) * d) - x"
    unfolding h1 h2 by (simp add: algebra_simps)
  also have "(S * u ^ a * d ^ j * (q * u + (1 - q) * d) - x) / R
      = S * u ^ a * d ^ j - K / R ^ Suc k"
    unfolding assms(1) x_def using assms(2) by (simp add: diff_divide_distrib)
  finally show ?case
    by (simp add: c_def p_def a_def)
qed

subsection \<open>The pricer in terms of the real lattice\<close>

lemma option_grid_value:
  assumes "1 \<le> N" "0 < T" "sigma \<noteq> 0" "ot = ''call'' \<or> ot = ''put''" "i \<le> nat N" "j \<le> i"
    and u: "u = exp (sigma * sqrt (delta_t T N))"
    and d: "d = exp (- sigma * sqrt (delta_t T N))"
    and R: "R = exp (r * delta_t T N)"
    and q: "q = (R - d) / (u - d)"
    and sp: "sp = build_stock_prices S (factor_u T sigma N) (factor_d T sigma N) (nat N)"
    and ov: "ov = (np_zeros (nat N + 1) (nat N + 1))[nat N := map (payoff ot K) (sp ! nat N)]"
  shows "discount_backward ex ot K sp (prob_q T r sigma N) (factor_R T r N) (nat N) ov ! i ! j
    = Some (lattice_value ex (intrinsic ot S K u d) q R (nat N) (nat N - i) j)"
proof -
  have dt: "0 < delta_t T N"
    using assms(1,2) by (simp add: delta_t_pos)
  have fu: "factor_u T sigma N = Some u" and fd: "factor_d T sigma N = Some d"
    using dt by (simp_all add: u d factor_u_Some factor_d_Some)
  have fR: "factor_R T r N = Some R"
    by (simp add: R factor_R_Some)
  have fq: "prob_q T r sigma N = Some q"
    using dt assms(3) by (simp add: q R u d prob_q_Some)
  have "R \<noteq> 0"
    by (simp add: R)
  from discount_backward_value [OF assms(4) this sp [unfolded fu fd] ov, of "nat N - i" j ex q]
  show ?thesis
    using assms(5,6) by (simp add: fq fR)
qed

lemma stock_grid_value:
  assumes "1 \<le> N" "0 \<le> T" "i \<le> nat N" "j \<le> i"
  shows "build_stock_prices S (factor_u T sigma N) (factor_d T sigma N) (nat N) ! i ! j
    = Some (S * exp (sigma * sqrt (delta_t T N)) ^ (i - j) * exp (- sigma * sqrt (delta_t T N)) ^ j)"
proof -
  have "0 \<le> delta_t T N"
    using assms(1,2) by (simp add: delta_t_nonneg)
  then show ?thesis
    using assms(3,4) by (simp add: factor_u_Some factor_d_Some build_stock_prices_nth)
qed

lemma pricer_value:
  assumes "1 \<le> N" "0 < T" "sigma \<noteq> 0" "ot = ''call'' \<or> ot = ''put''"
    and u: "u = exp (sigma * sqrt (delta_t T N))"
    and d: "d = exp (- sigma * sqrt (delta_t T N))"
    and R: "R = exp (r * delta_t T N)"
    and q: "q = (R - d) / (u - d)"
  shows "binomial_option_pricer S K T r sigma N ot
    = Inr (Some (lattice_value european (intrinsic ot S K u d) q R (nat N) (nat N) 0))"
proof -
  define sp where "sp = build_stock_prices S (factor_u T sigma N) (factor_d T sigma N) (nat N)"
  define ov where "ov = (np_zeros (nat N + 1) (nat N + 1))[nat N := map (payoff ot K) (sp ! nat N)]"
  define V where "V = discount_backward european ot K sp (prob_q T r sigma N) (factor_R T r N) (nat N) ov"
  have "lattices S K T r sigma N ot = Inr (sp, V)"
    using lattices_Inr [OF assms(1,4), of S K T r sigma] by (simp add: sp_def ov_def V_def)
  then have "binomial_option_pricer S K T r sigma N ot = Inr (V ! 0 ! 0)"
    by (simp add: binomial_option_pricer_def)
  also have "V ! 0 ! 0
    = Some (lattice_value european (intrinsic ot S K u d) q R (nat N) (nat N - 0) 0)"
    unfolding V_def using assms(1-4) _ _ u d R q sp_def ov_def by (rule option_grid_value) simp_all
  finally show ?thesis by simp
qed

text \<open>The specified engine on a parameter set it accepts.\<close>

lemma price_value:
  assumes "1 \<le> N" "0 < S" "0 < K" "0 < T" "0 \<le> sigma" "ot = ''call'' \<or> ot = ''put''"
    and u: "u = exp (sigma * sqrt (T / real_of_int N))"
    and d: "d = exp (- sigma * sqrt (T / real_of_int N))"
    and R: "R = exp (r * (T / real_of_int N))"
    and q: "q = (R - d) / (u - d)"
    and arb: "d < R" "R < u"
  shows "price S K T r sigma N ot ex
    = Inr (Some (lattice_value ex (intrinsic ot S K u d) q R (nat N) (nat N) 0))"
proof -
  define sp where "sp = build_stock_prices S (Some u) (Some d) (nat N)"
  define ov where "ov = (np_zeros (nat N + 1) (nat N + 1))[nat N := map (payoff ot K) (sp ! nat N)]"
  have "R \<noteq> 0"
    by (simp add: R)
  from discount_backward_value [OF assms(6) this sp_def ov_def, of "nat N" 0 ex q]
  have "discount_backward ex ot K sp (Some q) (Some R) (nat N) ov ! 0 ! 0
      = Some (lattice_value ex (intrinsic ot S K u d) q R (nat N) (nat N) 0)"
    by simp
  moreover have "price S K T r sigma N ot ex
      = Inr (discount_backward ex ot K sp (Some q) (Some R) (nat N) ov ! 0 ! 0)"
    unfolding sp_def ov_def q R u d
    using assms(1-6) arb [unfolded R u d]
    by (simp add: price_def Let_def)
  ultimately show ?thesis by simp
qed

text \<open>The engine accepts no other parameter sets.\<close>

lemma price_accepted:
  assumes "price S K T r sigma N ot ex = Inr p"
  shows "1 \<le> N" "0 < S" "0 < K" "0 < T" "0 < sigma" "ot = ''call'' \<or> ot = ''put''"
    and "exp (- sigma * sqrt (T / real_of_int N)) < exp (r * (T / real_of_int N))"
    and "exp (r * (T / real_of_int N)) < exp (sigma * sqrt (T / real_of_int N))"
proof -
  have ok: "\<not> (N < 1 \<or> S \<le> 0 \<or> K \<le> 0 \<or> T \<le> 0 \<or> sigma < 0)"
    "\<not> (ot \<noteq> ''call'' \<and> ot \<noteq> ''put'')"
    using assms by (auto simp: price_def split: if_splits)
  then have arb: "\<not> (exp (- sigma * sqrt (T / real_of_int N)) \<ge> exp (r * (T / real_of_int N))
      \<or> exp (r * (T / real_of_int N)) \<ge> exp (sigma * sqrt (T / real_of_int N)))"
    using assms by (auto simp: price_def Let_def split: if_splits)
  show "1 \<le> N" "0 < S" "0 < K" "0 < T" "ot = ''call'' \<or> ot = ''put''"
    using ok by auto
  show lo: "exp (- sigma * sqrt (T / real_of_int N)) < exp (r * (T / real_of_int N))"
    and hi: "exp (r * (T / real_of_int N)) < exp (sigma * sqrt (T / real_of_int N))"
    using arb by auto
  have "sigma \<noteq> 0"
    using lo hi by auto
  with ok show "0 < sigma"
    by auto
qed

lemma pricer_root:
  "lattices S K T r sigma N ot = Inr (sp, V) \<Longrightarrow>
   binomial_option_pricer S K T r sigma N ot = Inr (V ! 0 ! 0)"
  by (simp add: binomial_option_pricer_def)

text \<open>With u > d the probability is in [0, 1] exactly when d <= R <= u.\<close>

lemma q_bounds:
  fixes q :: real
  assumes "d < u" "q = (R - d) / (u - d)"
  shows "0 \<le> q \<longleftrightarrow> d \<le> R" "q \<le> 1 \<longleftrightarrow> R \<le> u" "0 < q \<longleftrightarrow> d < R" "q < 1 \<longleftrightarrow> R < u"
  unfolding assms(2) using assms(1) by (simp_all add: field_simps)

lemma q_martingale:
  fixes q :: real
  assumes "d \<noteq> u" "q = (R - d) / (u - d)"
  shows "q * u + (1 - q) * d = R"
proof -
  have "q * u + (1 - q) * d = q * (u - d) + d"
    by (simp add: algebra_simps)
  also have "\<dots> = R"
    using assms by simp
  finally show ?thesis .
qed

lemma up_gt_down:
  assumes "0 < sigma" "0 < delta_t T N"
  shows "exp (- sigma * sqrt (delta_t T N)) < exp (sigma * sqrt (delta_t T N))"
  using assms by simp

subsection \<open>Values that are not numbers, and two examples of strikes\<close>

lemma continuation_nan: "continuation None R g i j = None"
  by (simp add: continuation_def fmul_def fadd_def)

lemma pricer_nan:
  assumes "1 \<le> N" "0 \<le> T" "ot = ''call'' \<or> ot = ''put''" "prob_q T r sigma N = None"
  shows "binomial_option_pricer S K T r sigma N ot = Inr None"
proof -
  define n where "n = nat N"
  define sp where "sp = build_stock_prices S (factor_u T sigma N) (factor_d T sigma N) n"
  define ov where "ov = (np_zeros (n + 1) (n + 1))[n := map (payoff ot K) (sp ! n)]"
  define V where "V = discount_backward european ot K sp None (factor_R T r N) n ov"
  have dt: "0 \<le> delta_t T N"
    using assms(2,1) by (rule delta_t_nonneg)
  have "shaped (n + 1) sp"
    unfolding sp_def by (simp only: factor_u_Some [OF dt] factor_d_Some [OF dt] build_stock_prices_shaped)
  then have "shaped (n + 1) ov"
    unfolding ov_def by (rule terminal_shaped)
  moreover have "0 < n"
    using assms(1) by (simp add: n_def)
  ultimately have "V ! 0 ! 0 = node_value european (continuation None (factor_R T r N) V 0 0)
      (payoff ot K (sp ! 0 ! 0))"
    unfolding V_def by (intro discount_backward_rec) simp_all
  then have "V ! 0 ! 0 = None"
    by (simp add: continuation_nan node_value_def)
  moreover have "lattices S K T r sigma N ot = Inr (sp, V)"
    using lattices_Inr [OF assms(1,3), of S K T r sigma]
    by (simp add: sp_def ov_def V_def n_def assms(4))
  ultimately show ?thesis
    by (simp add: binomial_option_pricer_def)
qed

text \<open>The same for any values of the factors with \<open>u = d\<close>.\<close>

lemma prob_q_factors:
  "prob_q T r sigma N
     = risk_neutral_q (factor_u T sigma N) (factor_d T sigma N) (factor_R T r N)"
  by (simp add: prob_q_def risk_neutral_q_def)

lemma pricer_factors:
  assumes "1 \<le> N"
  shows "binomial_option_pricer S K T r sigma N ot
    = pricer_from_factors (factor_u T sigma N) (factor_d T sigma N) (factor_R T r N) S K (nat N) ot"
  using assms
  by (simp add: binomial_option_pricer_def lattices_def pricer_from_factors_def Let_def
      prob_q_factors split: sum.splits)

lemma risk_neutral_q_equal: "risk_neutral_q (Some u) (Some u) R = None"
  by (simp add: risk_neutral_q_def fsub_def)

lemma risk_neutral_q_distinct:
  "u \<noteq> d \<Longrightarrow> risk_neutral_q (Some u) (Some d) (Some R) = Some ((R - d) / (u - d))"
  by (simp add: risk_neutral_q_def fsub_def)

lemma pricer_from_factors_nan:
  assumes "0 < n" "ot = ''call'' \<or> ot = ''put''" "risk_neutral_q (Some u) (Some d) R = None"
  shows "pricer_from_factors (Some u) (Some d) R S K n ot = Inr None"
proof -
  define sp where "sp = build_stock_prices S (Some u) (Some d) n"
  define ov where "ov = (np_zeros (n + 1) (n + 1))[n := map (payoff ot K) (sp ! n)]"
  define V where "V = discount_backward european ot K sp None R n ov"
  have "shaped (n + 1) sp"
    unfolding sp_def by (rule build_stock_prices_shaped)
  then have "shaped (n + 1) ov"
    unfolding ov_def by (rule terminal_shaped)
  then have "V ! 0 ! 0 = node_value european (continuation None R V 0 0) (payoff ot K (sp ! 0 ! 0))"
    unfolding V_def using assms(1) by (intro discount_backward_rec) simp_all
  then have "V ! 0 ! 0 = None"
    by (simp add: continuation_nan node_value_def)
  moreover have "pricer_from_factors (Some u) (Some d) R S K n ot = Inr (V ! 0 ! 0)"
    using assms(2,3)
    by (simp add: pricer_from_factors_def Let_def terminal_payoff_Inr sp_def ov_def V_def
        backward_pass_discount [of _ _ _ _ ot K "build_stock_prices S (Some u) (Some d) n"])
  ultimately show ?thesis by simp
qed

text \<open>Two steps, unfolded.\<close>

lemma lattice_value_two_steps:
  "lattice_value european intr q R 2 2 0
     = (q * ((q * intr 2 0 + (1 - q) * intr 2 1) / R)
        + (1 - q) * ((q * intr 2 1 + (1 - q) * intr 2 2) / R)) / R"
  by (simp add: eval_nat_numeral Let_def)

lemma exp_one_ge_two: "2 \<le> exp (1::real)"
  using exp_ge_add_one_self [of "1::real"] by simp

lemma arbitrage_example:
  fixes u d R q :: real
  assumes "u = exp 1" "d = exp (- 1)" "R = exp 2" "q = (R - d) / (u - d)"
  shows "0 < d" "d < 1" "u * d = 1" "2 \<le> u" "0 < R" "2 < q"
proof -
  show "0 < d" "d < 1" "0 < R" "2 \<le> u"
    using exp_one_ge_two by (simp_all add: assms)
  show ud: "u * d = 1"
    by (simp add: assms exp_minus)
  have "R = u * u"
    by (simp add: assms exp_add [symmetric])
  moreover have "2 * u \<le> u * u"
    using \<open>2 \<le> u\<close> by simp
  ultimately have "2 * (u - d) < R - d"
    using \<open>0 < d\<close> by simp
  moreover have "0 < u - d"
    using \<open>d < 1\<close> \<open>2 \<le> u\<close> by simp
  ultimately show "2 < q"
    unfolding assms(4) by (simp add: pos_less_divide_eq)
qed

lemma strike_flat_example:
  "binomial_option_pricer 1 3 1 0 1 1 ''call'' = Inr (Some 0) \<and>
   binomial_option_pricer 1 4 1 0 1 1 ''call'' = Inr (Some 0)"
proof -
  have e: "exp 1 \<le> (3::real)"
    by (rule exp_le)
  then have e': "exp 1 \<le> (4::real)"
    by simp
  have d: "exp (- 1) \<le> (3::real)" "exp (- 1) \<le> (4::real)"
    using exp_le_cancel_iff [of "- 1 :: real" 1] e by linarith+
  have "binomial_option_pricer 1 K 1 0 1 1 ''call''
      = Inr (Some (lattice_value european (intrinsic ''call'' 1 K (exp 1) (exp (- 1)))
          ((1 - exp (- 1)) / (exp 1 - exp (- 1))) 1 (nat 1) (nat 1) 0))" for K
    by (rule pricer_value) (simp_all add: delta_t_def)
  then show ?thesis
    using e e' d by (simp add: intrinsic_def max_def)
qed

lemma strike_arbitrage_example:
  "\<exists>c1 c2. binomial_option_pricer 1 (1/2) 2 2 1 2 ''call'' = Inr (Some c1) \<and>
     binomial_option_pricer 1 1 2 2 1 2 ''call'' = Inr (Some c2) \<and> c1 < c2"
proof -
  define u :: real where "u = exp 1"
  define d :: real where "d = exp (- 1)"
  define R :: real where "R = exp 2"
  define q where "q = (R - d) / (u - d)"
  define I where "I = (\<lambda>K. intrinsic ''call'' 1 K u d)"
  define c where "c = (\<lambda>K. lattice_value european (I K) q R 2 2 0)"
  note ex = arbitrage_example [OF u_def d_def R_def q_def]
  have price: "binomial_option_pricer 1 K 2 2 1 2 ''call'' = Inr (Some (c K))" for K
    using pricer_value [of 2 2 1 "''call''" u d R 2 q 1 K]
    by (simp add: delta_t_def u_def d_def R_def q_def I_def c_def)
  have uu: "2 * 2 \<le> u * u"
    using ex(4) by (intro mult_mono) simp_all
  have "2 * d \<le> u * d"
    using ex(1,4) by (intro mult_right_mono) simp_all
  then have "d \<le> 1 / 2"
    using ex(3) by simp
  with ex(1) have "d * d \<le> (1 / 2) * (1 / 2)"
    by (intro mult_mono) simp_all
  then have dd: "d * d \<le> 1 / 2"
    by simp
  have I: "I K 2 0 = u * u - K" "I K 2 1 = 1 - K" "I K 2 2 = 0" if "1 / 2 \<le> K" "K \<le> 1" for K
    using that uu dd ex(3) by (simp_all add: I_def intrinsic_def power2_eq_square max_def)
  have c: "c K = (q * q * (u * u - K) + 2 * q * (1 - q) * (1 - K)) / (R * R)"
    if "1 / 2 \<le> K" "K \<le> 1" for K
    using ex(5) by (simp add: c_def lattice_value_two_steps I(1,3) [OF that] I(2) [OF that, unfolded One_nat_def]
        field_simps)
  have "(q * q * (u * u - 1) + 2 * q * (1 - q) * (1 - 1))
      - (q * q * (u * u - 1 / 2) + 2 * q * (1 - q) * (1 - 1 / 2)) = q * (q - 2) / 2"
    by (simp add: algebra_simps)
  moreover have "0 < q * (q - 2) / 2"
    using ex(6) by simp
  ultimately have "q * q * (u * u - 1 / 2) + 2 * q * (1 - q) * (1 - 1 / 2)
      < q * q * (u * u - 1) + 2 * q * (1 - q) * (1 - 1)"
    by linarith
  then have "c (1 / 2) < c 1"
    using ex(5) by (simp add: c divide_strict_right_mono)
  with price [of "1 / 2"] price [of 1] show ?thesis
    by simp
qed

section \<open>The stated properties\<close>

text \<open>
  C3. For \<open>S > 0\<close>, \<open>K > 0\<close>, \<open>T > 0\<close>, \<open>sigma > 0\<close>, \<open>N \<ge> 1\<close>, every layer \<open>i\<close> in
  \<open>0..N\<close> and node \<open>j\<close> in \<open>0..i\<close>: the entry \<open>(i, j)\<close> of the stock price grid built by
  the incremental recurrence of lines 25 to 31 is \<open>S * u^(i-j) * d^j\<close>, with
  \<open>u = exp (sigma * sqrt (T/N))\<close> and \<open>d = exp (- sigma * sqrt (T/N))\<close>. The equation is
  one of real arithmetic; the rounding of floating-point products is outside the model.
\<close>

theorem stock_prices_closed_form:
  assumes "0 < S" "0 < K" "0 < T" "0 < sigma" "1 \<le> N"
    and "ot = ''call'' \<or> ot = ''put''"
    and "i \<le> nat N" "j \<le> i"
    and "u = exp (sigma * sqrt (T / real_of_int N))"
    and "d = exp (- sigma * sqrt (T / real_of_int N))"
  shows "\<exists>sp V. lattices S K T r sigma N ot = Inr (sp, V) \<and>
           sp ! i ! j = Some (S * u ^ (i - j) * d ^ j)"
proof -
  have "build_stock_prices S (factor_u T sigma N) (factor_d T sigma N) (nat N) ! i ! j
      = Some (S * u ^ (i - j) * d ^ j)"
    using assms by (simp add: stock_grid_value delta_t_def)
  then show ?thesis
    using lattices_Inr [OF assms(5,6), of S K T r sigma] by simp
qed

theorem stock_prices_closed_form_witness:
  "\<exists>sp V. lattices 100 105 1 (1/20) (1/5) 3 ''call'' = Inr (sp, V) \<and>
     sp ! 2 ! 1 = Some (100 * exp (1/5 * sqrt (1 / real_of_int 3)) ^ (2 - 1)
                            * exp (- (1/5) * sqrt (1 / real_of_int 3)) ^ 1)"
  by (rule stock_prices_closed_form [of 100 105 1 "1/5" 3 "''call''" 2 1]) simp_all

text \<open>
  C4. For valid parameters with \<open>N \<ge> 1\<close>, the final layer \<open>N\<close> of the option value
  grid is, at every \<open>j\<close> in \<open>0..N\<close>, \<open>max(0, s - K)\<close> for a call and \<open>max(0, K - s)\<close> for
  a put, where \<open>s\<close> is the stock price at the node \<open>(N, j)\<close>.
\<close>

theorem terminal_layer_payoff:
  assumes "0 < S" "0 < K" "0 < T" "0 < sigma" "1 \<le> N"
    and "ot = ''call'' \<or> ot = ''put''"
    and "j \<le> nat N"
  shows "\<exists>sp V s. lattices S K T r sigma N ot = Inr (sp, V) \<and>
           sp ! nat N ! j = Some s \<and>
           V ! nat N ! j = Some (if ot = ''call'' then max 0 (s - K) else max 0 (K - s))"
proof -
  define u where "u = exp (sigma * sqrt (delta_t T N))"
  define d where "d = exp (- sigma * sqrt (delta_t T N))"
  define R where "R = exp (r * delta_t T N)"
  define q where "q = (R - d) / (u - d)"
  define sp where "sp = build_stock_prices S (factor_u T sigma N) (factor_d T sigma N) (nat N)"
  define ov where "ov = (np_zeros (nat N + 1) (nat N + 1))[nat N := map (payoff ot K) (sp ! nat N)]"
  define V where "V = discount_backward european ot K sp (prob_q T r sigma N) (factor_R T r N) (nat N) ov"
  have lat: "lattices S K T r sigma N ot = Inr (sp, V)"
    using lattices_Inr [OF assms(5,6), of S K T r sigma] by (simp add: sp_def ov_def V_def)
  have s: "sp ! nat N ! j = Some (S * u ^ (nat N - j) * d ^ j)"
    unfolding sp_def u_def d_def using assms by (intro stock_grid_value) simp_all
  have "sigma \<noteq> 0" using assms(4) by simp
  with assms(5,3) have "V ! nat N ! j
      = Some (lattice_value european (intrinsic ot S K u d) q R (nat N) (nat N - nat N) j)"
    unfolding V_def using assms(6) _ assms(7) u_def d_def R_def q_def sp_def ov_def
    by (rule option_grid_value) simp
  then have "V ! nat N ! j = Some (if ot = ''call'' then max 0 (S * u ^ (nat N - j) * d ^ j - K)
      else max 0 (K - S * u ^ (nat N - j) * d ^ j))"
    by (simp add: intrinsic_def)
  with lat s show ?thesis by blast
qed

theorem terminal_layer_payoff_witness:
  "\<exists>sp V s. lattices 100 105 1 (1/20) (1/5) 3 ''put'' = Inr (sp, V) \<and>
     sp ! nat 3 ! 1 = Some s \<and>
     V ! nat 3 ! 1 = Some (if ''put'' = ''call'' then max 0 (s - 105) else max 0 (105 - s))"
  by (rule terminal_layer_payoff [of 100 105 1 "1/5" 3 "''put''" 1]) simp_all

text \<open>
  C2. For \<open>S > 0\<close>, \<open>K > 0\<close>, \<open>T > 0\<close>, \<open>sigma > 0\<close>, \<open>N \<ge> 1\<close> and a call or a put, with
  \<open>u\<close>, \<open>d\<close>, \<open>R\<close>, \<open>q\<close> as line 18 to 23 compute them: the grid the pricer leaves holds
  at every node \<open>(i, j)\<close>, \<open>i < N\<close>, \<open>j \<le> i\<close>, the continuation value
  \<open>(q * V(i+1, j) + (1 - q) * V(i+1, j+1)) / R\<close>, and the pricer returns \<open>V(0, 0)\<close>.
\<close>

theorem backward_recurrence:
  assumes "0 < S" "0 < K" "0 < T" "0 < sigma" "1 \<le> N"
    and "ot = ''call'' \<or> ot = ''put''"
    and "i < nat N" "j \<le> i"
    and "u = exp (sigma * sqrt (T / real_of_int N))"
    and "d = exp (- sigma * sqrt (T / real_of_int N))"
    and "R = exp (r * (T / real_of_int N))"
    and "q = (R - d) / (u - d)"
  shows "\<exists>sp V v v1 v2. lattices S K T r sigma N ot = Inr (sp, V) \<and>
           V ! i ! j = Some v \<and> V ! (i + 1) ! j = Some v1 \<and> V ! (i + 1) ! (j + 1) = Some v2 \<and>
           v = (q * v1 + (1 - q) * v2) / R \<and>
           binomial_option_pricer S K T r sigma N ot = Inr (V ! 0 ! 0)"
proof -
  define sp where "sp = build_stock_prices S (factor_u T sigma N) (factor_d T sigma N) (nat N)"
  define ov where "ov = (np_zeros (nat N + 1) (nat N + 1))[nat N := map (payoff ot K) (sp ! nat N)]"
  define V where "V = discount_backward european ot K sp (prob_q T r sigma N) (factor_R T r N) (nat N) ov"
  define L where "L = lattice_value european (intrinsic ot S K u d) q R (nat N)"
  have lat: "lattices S K T r sigma N ot = Inr (sp, V)"
    using lattices_Inr [OF assms(5,6), of S K T r sigma] by (simp add: sp_def ov_def V_def)
  have "sigma \<noteq> 0" using assms(4) by simp
  note val = option_grid_value [OF assms(5,3) this assms(6) _ _
      assms(9-12) [folded delta_t_def] sp_def ov_def, of _ _ european, folded V_def L_def]
  have k: "nat N - i = Suc (nat N - (i + 1))"
    using assms(7) by simp
  have "V ! i ! j = Some (L (nat N - i) j)"
    using assms(7,8) by (intro val) simp_all
  moreover have "V ! (i + 1) ! j = Some (L (nat N - (i + 1)) j)"
    using assms(7,8) by (intro val) simp_all
  moreover have "V ! (i + 1) ! (j + 1) = Some (L (nat N - (i + 1)) (Suc j))"
    using assms(7,8) by (simp add: val)
  moreover have "L (nat N - i) j
      = (q * L (nat N - (i + 1)) j + (1 - q) * L (nat N - (i + 1)) (Suc j)) / R"
    unfolding k by (simp add: L_def)
  ultimately show ?thesis
    using lat pricer_root [OF lat] by blast
qed

theorem backward_recurrence_witness:
  "\<exists>sp V v v1 v2. lattices 100 105 1 (1/20) (1/5) 3 ''call'' = Inr (sp, V) \<and>
     V ! 1 ! 0 = Some v \<and> V ! (1 + 1) ! 0 = Some v1 \<and> V ! (1 + 1) ! (0 + 1) = Some v2 \<and>
     v = ((exp (1/20 * (1 / real_of_int 3)) - exp (- (1/5) * sqrt (1 / real_of_int 3)))
          / (exp (1/5 * sqrt (1 / real_of_int 3)) - exp (- (1/5) * sqrt (1 / real_of_int 3))) * v1
          + (1 - (exp (1/20 * (1 / real_of_int 3)) - exp (- (1/5) * sqrt (1 / real_of_int 3)))
          / (exp (1/5 * sqrt (1 / real_of_int 3)) - exp (- (1/5) * sqrt (1 / real_of_int 3)))) * v2)
         / exp (1/20 * (1 / real_of_int 3)) \<and>
     binomial_option_pricer 100 105 1 (1/20) (1/5) 3 ''call'' = Inr (V ! 0 ! 0)"
  by (rule backward_recurrence [of 100 105 1 "1/5" 3 "''call''" 1 0]) simp_all

text \<open>
  C10. For \<open>S > 0\<close>, \<open>K > 0\<close>, \<open>T > 0\<close>, \<open>sigma \<ge> 0\<close>, \<open>N \<ge> 1\<close>, a call or a put, and a
  risk-neutral probability \<open>q = (R - d) / (u - d)\<close> that lies in \<open>[0, 1]\<close> with \<open>R > 0\<close>:
  every entry \<open>(i, j)\<close>, \<open>j \<le> i\<close>, of the option value grid is nonnegative, and so is the
  returned price. (The hypothesis on \<open>q\<close> is about the value the code computes; for
  \<open>sigma = 0\<close> that value is not a number and the hypothesis fails.)
\<close>

theorem option_values_nonneg:
  assumes "0 < S" "0 < K" "0 < T" "0 \<le> sigma" "1 \<le> N"
    and "ot = ''call'' \<or> ot = ''put''"
    and "prob_q T r sigma N = Some q" "0 \<le> q" "q \<le> 1"
    and "factor_R T r N = Some R" "0 < R"
    and "i \<le> nat N" "j \<le> i"
  shows "\<exists>sp V v p. lattices S K T r sigma N ot = Inr (sp, V) \<and>
           V ! i ! j = Some v \<and> 0 \<le> v \<and>
           binomial_option_pricer S K T r sigma N ot = Inr (Some p) \<and> 0 \<le> p"
proof -
  define u where "u = exp (sigma * sqrt (delta_t T N))"
  define d where "d = exp (- sigma * sqrt (delta_t T N))"
  define sp where "sp = build_stock_prices S (factor_u T sigma N) (factor_d T sigma N) (nat N)"
  define ov where "ov = (np_zeros (nat N + 1) (nat N + 1))[nat N := map (payoff ot K) (sp ! nat N)]"
  define V where "V = discount_backward european ot K sp (prob_q T r sigma N) (factor_R T r N) (nat N) ov"
  define L where "L = lattice_value european (intrinsic ot S K u d) q R (nat N)"
  have dt: "0 < delta_t T N"
    using assms(3,5) by (rule delta_t_pos)
  have sig: "sigma \<noteq> 0"
    using prob_q_None [of T N sigma r] dt assms(7) by auto
  have R: "R = exp (r * delta_t T N)"
    using assms(10) by (simp add: factor_R_Some)
  have q: "q = (R - d) / (u - d)"
    using assms(7) prob_q_Some [OF dt sig, of r] by (simp add: R u_def d_def)
  have lat: "lattices S K T r sigma N ot = Inr (sp, V)"
    using lattices_Inr [OF assms(5,6), of S K T r sigma] by (simp add: sp_def ov_def V_def)
  have nonneg: "0 \<le> L k m" for k m
    unfolding L_def using assms(8,9,11) by (intro lattice_value_nonneg intrinsic_nonneg)
  have "V ! i ! j = Some (L (nat N - i) j)"
    unfolding V_def L_def
    using assms(5,3) sig assms(6,12,13) u_def d_def R q sp_def ov_def
    by (rule option_grid_value)
  moreover have "binomial_option_pricer S K T r sigma N ot = Inr (Some (L (nat N) 0))"
    unfolding L_def using assms(5,3) sig assms(6) u_def d_def R q by (rule pricer_value)
  ultimately show ?thesis
    using lat nonneg by blast
qed

theorem option_values_nonneg_witness:
  "\<exists>sp V v p. lattices 1 1 1 0 1 1 ''call'' = Inr (sp, V) \<and>
     V ! 1 ! 0 = Some v \<and> 0 \<le> v \<and>
     binomial_option_pricer 1 1 1 0 1 1 ''call'' = Inr (Some p) \<and> 0 \<le> p"
proof -
  have dt: "0 < delta_t 1 1"
    by (simp add: delta_t_def)
  have q: "prob_q 1 0 1 1 = Some ((1 - exp (- 1)) / (exp 1 - exp (- 1)))"
    using prob_q_Some [OF dt, of 1 0] by (simp add: delta_t_def)
  have R: "factor_R 1 0 1 = Some 1"
    by (simp add: factor_R_Some)
  have du: "exp (- 1) < (1::real)" "(1::real) < exp 1"
    by simp_all
  have "0 \<le> (1 - exp (- 1)) / (exp 1 - exp (- 1 :: real))"
    using du by simp
  moreover have "(1 - exp (- 1)) / (exp 1 - exp (- 1 :: real)) \<le> 1"
    using du by simp
  ultimately show ?thesis
    by (intro option_values_nonneg [OF _ _ _ _ _ _ q _ _ R]) simp_all
qed

text \<open>
  Put-call parity in exact real arithmetic. For \<open>S > 0\<close>, \<open>K > 0\<close>, \<open>T > 0\<close>,
  \<open>sigma > 0\<close>, \<open>N \<ge> 1\<close> the call price minus the put price of the pricer is
  \<open>S - K * R^(-N)\<close> with \<open>R = exp (r * T / N)\<close>. This is the real-arithmetic half of C5
  and no more: the identity rests on the cancellation of \<open>q * u + (1 - q) * d = R\<close> in
  every step of line 48, and where \<open>q\<close> is outside \<open>[0, 1]\<close> (as for \<open>sigma = 0.001\<close>,
  \<open>r = 0.05\<close>, \<open>T = 1\<close>, \<open>N = 20\<close>, a parameter set of C5) the float64 recursion amplifies
  its rounding errors by about \<open>\<bar>q\<bar> + \<bar>1 - q\<bar>\<close> a step, so that the parity within a
  tolerance, which is what C5 says of the program, needs a model of float64 rounding
  that this theory does not have.
\<close>

lemma put_call_parity_real:
  assumes "0 < S" "0 < K" "0 < T" "0 < sigma" "1 \<le> N"
    and "R = exp (r * (T / real_of_int N))"
  shows "\<exists>c p. binomial_option_pricer S K T r sigma N ''call'' = Inr (Some c) \<and>
           binomial_option_pricer S K T r sigma N ''put'' = Inr (Some p) \<and>
           c - p = S - K * R powi (- N)"
proof -
  define u where "u = exp (sigma * sqrt (delta_t T N))"
  define d where "d = exp (- sigma * sqrt (delta_t T N))"
  define q where "q = (R - d) / (u - d)"
  define c where "c = lattice_value european (intrinsic ''call'' S K u d) q R (nat N) (nat N) 0"
  define p where "p = lattice_value european (intrinsic ''put'' S K u d) q R (nat N) (nat N) 0"
  have sig: "sigma \<noteq> 0" using assms(4) by simp
  have R: "R = exp (r * delta_t T N)"
    by (simp add: assms(6) delta_t_def)
  have dt: "0 < delta_t T N"
    using assms(3,5) by (rule delta_t_pos)
  have "d < u"
    unfolding u_def d_def using assms(4) dt by (rule up_gt_down)
  then have "d \<noteq> u" by simp
  then have mart: "q * u + (1 - q) * d = R"
    using q_def by (rule q_martingale)
  have "R \<noteq> 0" by (simp add: R)
  with mart have "c - p = S * u ^ (nat N - nat N - 0) * d ^ 0 - K / R ^ nat N"
    unfolding c_def p_def by (rule lattice_value_parity) simp_all
  also have "\<dots> = S - K * R powi (- N)"
    using assms(5) by (simp add: power_int_def field_simps)
  finally have "c - p = S - K * R powi (- N)" .
  moreover have "binomial_option_pricer S K T r sigma N ''call'' = Inr (Some c)"
    unfolding c_def using assms(5,3) sig _ u_def d_def R q_def by (rule pricer_value) simp
  moreover have "binomial_option_pricer S K T r sigma N ''put'' = Inr (Some p)"
    unfolding p_def using assms(5,3) sig _ u_def d_def R q_def by (rule pricer_value) simp
  ultimately show ?thesis by blast
qed

lemma put_call_parity_real_example:
  "\<exists>c p. binomial_option_pricer 100 105 1 (1/20) (1/5) 3 ''call'' = Inr (Some c) \<and>
     binomial_option_pricer 100 105 1 (1/20) (1/5) 3 ''put'' = Inr (Some p) \<and>
     c - p = 100 - 105 * exp (1/20 * (1 / real_of_int 3)) powi (- 3)"
  by (rule put_call_parity_real [of 100 105 1 "1/5" 3]) simp_all

text \<open>
  C8, as stated, fails. With \<open>d < R < u\<close> both strikes 3 and 4 lie above the highest
  terminal stock price \<open>e\<close> and the call is worth 0 at both: the decrease is not strict.
  With \<open>R > u\<close> (\<open>q > 2\<close>) the call price at strike 1 is above the one at strike 1/2.
\<close>

theorem strike_counterexample:
  "(binomial_option_pricer 1 3 1 0 1 1 ''call'' = Inr (Some 0) \<and>
    binomial_option_pricer 1 4 1 0 1 1 ''call'' = Inr (Some 0)) \<and>
   (\<exists>c1 c2. binomial_option_pricer 1 (1/2) 2 2 1 2 ''call'' = Inr (Some c1) \<and>
      binomial_option_pricer 1 1 2 2 1 2 ''call'' = Inr (Some c2) \<and> c1 < c2)"
  using strike_flat_example strike_arbitrage_example by blast

text \<open>
  C8, amended. For \<open>S > 0\<close>, \<open>0 < K1 < K2\<close>, \<open>T > 0\<close>, \<open>sigma > 0\<close>, \<open>N \<ge> 1\<close> and
  \<open>d < R < u\<close>: the call price at \<open>K2\<close> is at most the one at \<open>K1\<close> and the put price at
  \<open>K1\<close> is at most the one at \<open>K2\<close>; the call price decreases strictly when
  \<open>K1 < S * u^N\<close>, the put price increases strictly when \<open>S * d^N < K2\<close>.
\<close>

theorem strike_monotone:
  assumes "0 < S" "0 < K1" "K1 < K2" "0 < T" "0 < sigma" "1 \<le> N"
    and "u = exp (sigma * sqrt (T / real_of_int N))"
    and "d = exp (- sigma * sqrt (T / real_of_int N))"
    and "R = exp (r * (T / real_of_int N))"
    and "d < R" "R < u"
  shows "\<exists>c1 c2 p1 p2.
           binomial_option_pricer S K1 T r sigma N ''call'' = Inr (Some c1) \<and>
           binomial_option_pricer S K2 T r sigma N ''call'' = Inr (Some c2) \<and>
           binomial_option_pricer S K1 T r sigma N ''put'' = Inr (Some p1) \<and>
           binomial_option_pricer S K2 T r sigma N ''put'' = Inr (Some p2) \<and>
           c2 \<le> c1 \<and> p1 \<le> p2 \<and>
           (K1 < S * u ^ nat N \<longrightarrow> c2 < c1) \<and>
           (S * d ^ nat N < K2 \<longrightarrow> p1 < p2)"
proof -
  define q where "q = (R - d) / (u - d)"
  define n where "n = nat N"
  define L where "L = (\<lambda>ot K. lattice_value european (intrinsic ot S K u d) q R n n 0)"
  have sig: "sigma \<noteq> 0" using assms(5) by simp
  have "d < u" using assms(10,11) by simp
  note qb = q_bounds [OF this q_def]
  have q: "0 < q" "q < 1" "0 \<le> q" "q \<le> 1"
    using qb assms(10,11) by simp_all
  have R: "0 < R" by (simp add: assms(9))
  have price: "binomial_option_pricer S K T r sigma N ot = Inr (Some (L ot K))"
    if "ot = ''call'' \<or> ot = ''put''" for ot K
    unfolding L_def n_def
    using assms(6,4) sig that assms(7-9) [folded delta_t_def] q_def by (rule pricer_value)
  have call_le: "intrinsic ''call'' S K2 u d n j \<le> intrinsic ''call'' S K1 u d n j" for j
    using assms(3) by (simp add: intrinsic_def max_def)
  have put_le: "intrinsic ''put'' S K1 u d n j \<le> intrinsic ''put'' S K2 u d n j" for j
    using assms(3) by (simp add: intrinsic_def max_def)
  have "L ''call'' K2 \<le> L ''call'' K1"
    unfolding L_def using q(3,4) R call_le by (rule lattice_value_mono)
  moreover have "L ''put'' K1 \<le> L ''put'' K2"
    unfolding L_def using q(3,4) R put_le by (rule lattice_value_mono)
  moreover have "L ''call'' K2 < L ''call'' K1" if "K1 < S * u ^ nat N"
  proof -
    have "intrinsic ''call'' S K2 u d n 0 < intrinsic ''call'' S K1 u d n 0"
      using that assms(3) by (simp add: intrinsic_def max_def n_def)
    with q(1,4) R call_le show ?thesis
      unfolding L_def by (rule lattice_value_strict_up)
  qed
  moreover have "L ''put'' K1 < L ''put'' K2" if "S * d ^ nat N < K2"
  proof -
    have "intrinsic ''put'' S K1 u d n (0 + n) < intrinsic ''put'' S K2 u d n (0 + n)"
      using that assms(3) by (simp add: intrinsic_def max_def n_def)
    with q(3,2) R put_le show ?thesis
      unfolding L_def by (rule lattice_value_strict_down)
  qed
  ultimately show ?thesis
    using price [of "''call''" K1] price [of "''call''" K2]
      price [of "''put''" K1] price [of "''put''" K2]
    by auto
qed

theorem strike_monotone_witness:
  "\<exists>c1 c2 p1 p2.
     binomial_option_pricer 1 1 1 0 1 1 ''call'' = Inr (Some c1) \<and>
     binomial_option_pricer 1 2 1 0 1 1 ''call'' = Inr (Some c2) \<and>
     binomial_option_pricer 1 1 1 0 1 1 ''put'' = Inr (Some p1) \<and>
     binomial_option_pricer 1 2 1 0 1 1 ''put'' = Inr (Some p2) \<and>
     c2 < c1 \<and> p1 < p2"
proof -
  have a: "(1::real) < 1 * exp (1 * sqrt (1 / real_of_int 1)) ^ nat 1"
    by simp
  have "exp (- 1 :: real) < 1"
    by simp
  then have "exp (- 1 :: real) < 2"
    by linarith
  then have b: "1 * exp (- 1 * sqrt (1 / real_of_int 1)) ^ nat 1 < (2::real)"
    by simp
  have "exp (- 1 * sqrt (1 / real_of_int 1)) < exp (0 * (1 / real_of_int 1))"
    and "exp (0 * (1 / real_of_int 1)) < exp (1 * sqrt (1 / real_of_int 1))"
    by simp_all
  from strike_monotone [of 1 1 2 1 1 1 _ _ _ 0, OF _ _ _ _ _ _ refl refl refl this]
  show ?thesis
    using a b by fastforce
qed

text \<open>
  C9. For every valid parameter set, that is one the specified engine accepts
  (\<open>S > 0\<close>, \<open>K > 0\<close>, \<open>T > 0\<close>, \<open>sigma > 0\<close>, \<open>N \<ge> 1\<close>, a call or a put, and
  \<open>d < R < u\<close>): the price with American exercise, node value \<open>max(C, intrinsic(i,j))\<close>,
  is at least the price with European exercise, node value \<open>C\<close>, and the latter is
  the price the source computes.
\<close>

theorem american_ge_european:
  assumes "0 < S" "0 < K" "0 < T" "0 < sigma" "1 \<le> N"
    and "ot = ''call'' \<or> ot = ''put''"
    and "u = exp (sigma * sqrt (T / real_of_int N))"
    and "d = exp (- sigma * sqrt (T / real_of_int N))"
    and "R = exp (r * (T / real_of_int N))"
    and "d < R" "R < u"
  shows "\<exists>a e. price S K T r sigma N ot american = Inr (Some a) \<and>
           price S K T r sigma N ot european = Inr (Some e) \<and>
           binomial_option_pricer S K T r sigma N ot = Inr (Some e) \<and>
           e \<le> a"
proof -
  define q where "q = (R - d) / (u - d)"
  define L where "L = (\<lambda>ex. lattice_value ex (intrinsic ot S K u d) q R (nat N) (nat N) 0)"
  have sig: "sigma \<noteq> 0" using assms(4) by simp
  have "d < u" using assms(10,11) by simp
  note qb = q_bounds [OF this q_def]
  have q: "0 \<le> q" "q \<le> 1"
    using qb assms(10,11) by simp_all
  have R: "0 < R" by (simp add: assms(9))
  have price: "price S K T r sigma N ot ex = Inr (Some (L ex))" for ex
    unfolding L_def
    using assms(5,1,2,3) less_imp_le [OF assms(4)] assms(6-9) q_def assms(10,11)
    by (rule price_value)
  have pricer: "binomial_option_pricer S K T r sigma N ot = Inr (Some (L european))"
    unfolding L_def
    using assms(5,3) sig assms(6) assms(7-9) [folded delta_t_def] q_def by (rule pricer_value)
  have "L european \<le> L american"
    unfolding L_def using q R by (rule lattice_value_american_ge)
  then show ?thesis
    using price [of american] price [of european] pricer
    by simp
qed

theorem american_ge_european_witness:
  "\<exists>a e. price 1 2 1 0 1 1 ''put'' american = Inr (Some a) \<and>
     price 1 2 1 0 1 1 ''put'' european = Inr (Some e) \<and>
     binomial_option_pricer 1 2 1 0 1 1 ''put'' = Inr (Some e) \<and>
     e \<le> a"
  by (rule american_ge_european [of 1 2 1 1 1 "''put''" _ _ _ 0, OF _ _ _ _ _ _ refl refl refl])
    simp_all

text \<open>
  C1, as stated, fails: the source validates none of \<open>S\<close>, \<open>K\<close>, \<open>T\<close>, \<open>sigma\<close> and
  the no-arbitrage condition. With \<open>S = 0\<close> the pricer returns the number 0.
\<close>

theorem validation_counterexample:
  "binomial_option_pricer 0 1 1 0 1 1 ''call'' = Inr (Some 0)"
proof -
  have "binomial_option_pricer 0 1 1 0 1 1 ''call''
      = Inr (Some (lattice_value european (intrinsic ''call'' 0 1 (exp 1) (exp (- 1)))
          ((1 - exp (- 1)) / (exp 1 - exp (- 1))) 1 (nat 1) (nat 1) 0))"
    by (rule pricer_value) (simp_all add: delta_t_def)
  then show ?thesis
    by (simp add: intrinsic_def)
qed

text \<open>
  C1, amended. The pricer raises an error in exactly these cases: \<open>ZeroDivisionError\<close>
  for \<open>N = 0\<close>, \<open>IndexError\<close> for \<open>N = -1\<close>, \<open>ValueError\<close> (negative dimensions) for
  \<open>N < -1\<close>, each before a grid is filled, and \<open>ValueError\<close> for an option type other
  than call and put when \<open>N \<ge> 1\<close>, after the stock price grid is built. For \<open>N \<ge> 1\<close>
  and a call or a put it returns a float whatever \<open>S\<close>, \<open>K\<close>, \<open>T\<close>, \<open>r\<close> and \<open>sigma\<close>
  are.
\<close>

theorem pricer_errors:
  "(N = 0 \<longrightarrow> binomial_option_pricer S K T r sigma N ot = Inl ZeroDivisionError) \<and>
   (N = - 1 \<longrightarrow> binomial_option_pricer S K T r sigma N ot = Inl IndexError) \<and>
   (N < - 1 \<longrightarrow> binomial_option_pricer S K T r sigma N ot = Inl ValueError_negative_dimensions) \<and>
   (1 \<le> N \<longrightarrow> ot \<noteq> ''call'' \<longrightarrow> ot \<noteq> ''put'' \<longrightarrow>
      binomial_option_pricer S K T r sigma N ot = Inl ValueError_option_type) \<and>
   (1 \<le> N \<longrightarrow> ot = ''call'' \<or> ot = ''put'' \<longrightarrow>
      (\<exists>p. binomial_option_pricer S K T r sigma N ot = Inr p))"
proof -
  have "\<exists>p. binomial_option_pricer S K T r sigma N ot = Inr p"
    if "1 \<le> N" "ot = ''call'' \<or> ot = ''put''"
  proof (cases "binomial_option_pricer S K T r sigma N ot")
    case (Inl e)
    with that show ?thesis
      by (auto simp: pricer_Inl_iff)
  next
    case (Inr p)
    then show ?thesis by blast
  qed
  then show ?thesis
    by (auto simp: pricer_Inl_iff)
qed

theorem pricer_errors_witness:
  "binomial_option_pricer 100 105 1 (1/20) (1/5) 0 ''call'' = Inl ZeroDivisionError \<and>
   binomial_option_pricer 100 105 1 (1/20) (1/5) (- 1) ''call'' = Inl IndexError \<and>
   binomial_option_pricer 100 105 1 (1/20) (1/5) (- 2) ''call'' = Inl ValueError_negative_dimensions \<and>
   binomial_option_pricer 100 105 1 (1/20) (1/5) 3 ''straddle'' = Inl ValueError_option_type \<and>
   (\<exists>p. binomial_option_pricer 0 105 1 (1/20) (1/5) 3 ''call'' = Inr p) \<and>
   (\<exists>p. binomial_option_pricer 100 0 1 (1/20) (1/5) 3 ''call'' = Inr p) \<and>
   (\<exists>p. binomial_option_pricer 100 105 0 (1/20) (1/5) 3 ''call'' = Inr p) \<and>
   (\<exists>p. binomial_option_pricer 100 105 1 (1/20) (- (1/10)) 3 ''call'' = Inr p) \<and>
   (\<exists>p. binomial_option_pricer 100 105 1 2 (1/5) 3 ''call'' = Inr p)"
  using pricer_errors [where S = "100" and K = "105" and T = "1" and r = "1/20" and sigma = "1/5" and N = "0" and ot = "''call''"]
    pricer_errors [where S = "100" and K = "105" and T = "1" and r = "1/20" and sigma = "1/5" and N = "- 1" and ot = "''call''"]
    pricer_errors [where S = "100" and K = "105" and T = "1" and r = "1/20" and sigma = "1/5" and N = "- 2" and ot = "''call''"]
    pricer_errors [where S = "100" and K = "105" and T = "1" and r = "1/20" and sigma = "1/5" and N = "3" and ot = "''straddle''"]
    pricer_errors [where S = "0" and K = "105" and T = "1" and r = "1/20" and sigma = "1/5" and N = "3" and ot = "''call''"]
    pricer_errors [where S = "100" and K = "0" and T = "1" and r = "1/20" and sigma = "1/5" and N = "3" and ot = "''call''"]
    pricer_errors [where S = "100" and K = "105" and T = "0" and r = "1/20" and sigma = "1/5" and N = "3" and ot = "''call''"]
    pricer_errors [where S = "100" and K = "105" and T = "1" and r = "1/20" and sigma = "- (1/10)" and N = "3" and ot = "''call''"]
    pricer_errors [where S = "100" and K = "105" and T = "1" and r = "2" and sigma = "1/5" and N = "3" and ot = "''call''"]
  by simp

text \<open>
  C6, as stated with the other parameters arbitrary, fails: for \<open>N = 0\<close> the division
  of line 15 raises \<open>ZeroDivisionError\<close> before the option type is looked at.
\<close>

theorem option_kind_counterexample:
  "binomial_option_pricer 100 105 1 (1/20) (1/5) 0 ''straddle'' = Inl ZeroDivisionError \<and>
   ZeroDivisionError \<noteq> ValueError_option_type"
  by (simp add: pricer_Inl_iff)

text \<open>
  C6, amended. For an option type other than call and put the pricer raises an error
  and returns no price; for \<open>N \<ge> 1\<close> the error is the \<open>ValueError\<close> of line 43, raised
  once, between the construction of the stock price grid and the backward pass. For
  a call or a put that error is never raised.
\<close>

theorem option_kind_error:
  "(ot \<noteq> ''call'' \<longrightarrow> ot \<noteq> ''put'' \<longrightarrow>
      (\<exists>e. binomial_option_pricer S K T r sigma N ot = Inl e) \<and>
      (1 \<le> N \<longrightarrow> binomial_option_pricer S K T r sigma N ot = Inl ValueError_option_type)) \<and>
   (ot = ''call'' \<or> ot = ''put'' \<longrightarrow>
      binomial_option_pricer S K T r sigma N ot \<noteq> Inl ValueError_option_type)"
proof -
  have "\<exists>e. binomial_option_pricer S K T r sigma N ot = Inl e"
    if "ot \<noteq> ''call''" "ot \<noteq> ''put''"
  proof -
    consider "N = 0" | "N = - 1" | "N < - 1" | "1 \<le> N"
      by linarith
    then show ?thesis
      using that by cases (auto simp: pricer_Inl_iff)
  qed
  then show ?thesis
    by (auto simp: pricer_Inl_iff)
qed

theorem option_kind_error_witness:
  "(\<exists>e. binomial_option_pricer 100 105 1 (1/20) (1/5) 3 ''straddle'' = Inl e) \<and>
   binomial_option_pricer 100 105 1 (1/20) (1/5) 3 ''straddle'' = Inl ValueError_option_type \<and>
   (\<exists>e. binomial_option_pricer 100 105 1 (1/20) (1/5) 0 ''straddle'' = Inl e) \<and>
   binomial_option_pricer 100 105 1 (1/20) (1/5) 3 ''put'' \<noteq> Inl ValueError_option_type"
  using option_kind_error [where S = 100 and K = 105 and T = 1 and r = "1/20" and sigma = "1/5" and N = "3" and ot = "''straddle''"]
    option_kind_error [where S = 100 and K = 105 and T = 1 and r = "1/20" and sigma = "1/5" and N = "0" and ot = "''straddle''"]
    option_kind_error [where S = 100 and K = 105 and T = 1 and r = "1/20" and sigma = "1/5" and N = "3" and ot = "''put''"]
  by simp

text \<open>
  C7, as stated, fails: with \<open>sigma = 0\<close> both factors \<open>u\<close> and \<open>d\<close> are 1, line 23
  divides by \<open>u - d = 0\<close>, and the value returned is not a number.
\<close>

theorem zero_volatility_counterexample:
  "binomial_option_pricer 100 105 1 (1/20) 0 3 ''call'' = Inr None"
  by (rule pricer_nan) (simp_all add: prob_q_None delta_t_def)

text \<open>
  C7, amended. For \<open>S > 0\<close>, \<open>K > 0\<close>, \<open>T > 0\<close>, \<open>N \<ge> 1\<close> and a call or a put, inputs with
  \<open>sigma = 0\<close> are not valid: the computed factors are \<open>u = d = 1\<close>, the probability
  \<open>q = (R - d) / (u - d)\<close> is a division by zero and the pricer returns a value that is
  not a number. The same holds for any values computed for the factors with \<open>u = d\<close>,
  whatever \<open>sigma\<close> and \<open>R\<close> are; \<open>q\<close> is computed without a division by zero when the
  computed \<open>u\<close> and \<open>d\<close> differ.
\<close>

theorem degenerate_volatility:
  assumes "0 < S" "0 < K" "0 < T" "1 \<le> N" "ot = ''call'' \<or> ot = ''put''"
  shows "(sigma = 0 \<longrightarrow>
            factor_u T sigma N = Some 1 \<and> factor_d T sigma N = Some 1 \<and>
            prob_q T r sigma N = None \<and>
            binomial_option_pricer S K T r sigma N ot = Inr None) \<and>
         prob_q T r sigma N
           = risk_neutral_q (factor_u T sigma N) (factor_d T sigma N) (factor_R T r N) \<and>
         binomial_option_pricer S K T r sigma N ot
           = pricer_from_factors (factor_u T sigma N) (factor_d T sigma N) (factor_R T r N)
               S K (nat N) ot \<and>
         risk_neutral_q (Some u) (Some u) R' = None \<and>
         pricer_from_factors (Some u) (Some u) R' S K (nat N) ot = Inr None \<and>
         (u \<noteq> d \<longrightarrow> risk_neutral_q (Some u) (Some d) (Some R) = Some ((R - d) / (u - d)))"
proof -
  have dt: "0 \<le> delta_t T N"
    using assms(3,4) by (simp add: delta_t_nonneg)
  have n: "0 < nat N"
    using assms(4) by simp
  have "factor_u T sigma N = Some 1 \<and> factor_d T sigma N = Some 1 \<and>
      prob_q T r sigma N = None \<and> binomial_option_pricer S K T r sigma N ot = Inr None"
    if "sigma = 0"
  proof -
    have q: "prob_q T r sigma N = None"
      using dt that by (rule prob_q_None)
    moreover have "binomial_option_pricer S K T r sigma N ot = Inr None"
      using assms(4) less_imp_le [OF assms(3)] assms(5) q by (rule pricer_nan)
    ultimately show ?thesis
      using dt that by (simp add: factor_u_Some factor_d_Some)
  qed
  moreover have "pricer_from_factors (Some u) (Some u) R' S K (nat N) ot = Inr None"
    using n assms(5) risk_neutral_q_equal by (rule pricer_from_factors_nan)
  moreover have "u \<noteq> d \<longrightarrow>
      risk_neutral_q (Some u) (Some d) (Some R) = Some ((R - d) / (u - d))"
    by (simp add: risk_neutral_q_distinct)
  moreover note prob_q_factors [of T r sigma N] pricer_factors [OF assms(4), of S K T r sigma ot]
    risk_neutral_q_equal [of u R']
  ultimately show ?thesis
    by blast
qed

theorem degenerate_volatility_witness:
  "(factor_u 1 0 3 = Some 1 \<and> factor_d 1 0 3 = Some 1 \<and>
    prob_q 1 (1/20) 0 3 = None \<and>
    binomial_option_pricer 100 105 1 (1/20) 0 3 ''call'' = Inr None) \<and>
   risk_neutral_q (Some 1) (Some 1) (Some (exp (1/60))) = None \<and>
   pricer_from_factors (Some 1) (Some 1) (Some (exp (1/60))) 100 105 (nat 3) ''call'' = Inr None \<and>
   risk_neutral_q (Some 2) (Some (1/2)) (Some 1) = Some ((1 - 1/2) / (2 - 1/2))"
  using degenerate_volatility [where S = 100 and K = 105 and T = 1 and r = "1/20"
      and sigma = 0 and N = 3 and ot = "''call''" and u = 1 and R' = "Some (exp (1/60))"]
    degenerate_volatility [where S = 100 and K = 105 and T = 1 and r = "1/20"
      and sigma = 0 and N = 3 and ot = "''call''" and u = 2 and d = "1/2" and R = 1]
  by simp

end
